theory Spec2Isabelle
  imports Main "HOL-Library.AList"
begin

section \<open>The session log\<close>

text \<open>
  One line of the log is a record \<open>{type, timestamp, message: {role, content}}\<close>. The
  exporters read \<open>type\<close> and \<open>role\<close> only to compare them with string literals, so an
  absent one is the empty string here. \<open>content\<close> is either an array of typed blocks or
  anything else (a plain string, or absent), which both exporters skip; an absent
  \<open>message\<close> reads as an absent content (\<open>entry.message?.content\<close>). \<open>parseJsonl\<close>
  drops the lines that do not parse and the values that are falsy (\<open>filter(Boolean)\<close>),
  so no record is \<open>null\<close>.
\<close>

text \<open>
  The records are typed: a field that is present holds a value of the type that the log
  format gives it (a text is a string, an array of todos holds todos). What the format
  leaves open is modelled: a field may be absent, and an array of blocks may hold \<open>null\<close>
  in the place of a block.
\<close>

text \<open>
  The input of a tool invocation, \<open>block.input || {}\<close>: the fields the exporters read. A
  field that is absent is \<^term>\<open>None\<close>. \<open>in_json\<close> is the text \<open>JSON.stringify(input)\<close> and
  \<open>in_json_pretty\<close> the text \<open>JSON.stringify(input, null, 2)\<close>.
\<close>

record todo =
  t_status :: string
  t_content :: string

record option_item =
  o_label :: string
  o_description :: "string option"

record question =
  q_question :: string
  q_options :: "option_item list option"

record tool_input =
  in_command :: "string option"
  in_file_path :: "string option"
  in_content :: "string option"
  in_old_string :: "string option"
  in_new_string :: "string option"
  in_replace_all :: bool
  in_description :: "string option"
  in_pattern :: "string option"
  in_path :: "string option"
  in_glob :: "string option"
  in_todos :: "todo list option"
  in_prompt :: "string option"
  in_subagent_type :: "string option"
  in_offset :: "nat option"
  in_limit :: "nat option"
  in_output_mode :: "string option"
  in_model :: "string option"
  in_query :: "string option"
  in_url :: "string option"
  in_notebook_path :: "string option"
  in_cell_type :: "string option"
  in_edit_mode :: "string option"
  in_new_source :: "string option"
  in_questions :: "question list option"
  in_json :: string
  in_json_pretty :: string

text \<open>
  The content of a \<open>tool_result\<close> block: a string, some other JSON value (carried as its
  \<open>JSON.stringify\<close> text), or absent.
\<close>

datatype result_content = ResString string | ResJson string | ResAbsent

datatype block =
    Text "string option"
  | Thinking string
  | ToolUse "string option" "string option" tool_input
  | ToolResult "string option" result_content bool
  | Image
  | OtherBlock string
  | Null

text \<open>
  \<open>ToolUse name id input\<close> and \<open>ToolResult tool_use_id content is_error\<close> list
  their fields in this order; \<^term>\<open>OtherBlock ty\<close> is a block of any other type. The
  text of a \<open>text\<close> block may be absent: \<^term>\<open>Text None\<close>. An element of the array may
  be \<open>null\<close> instead of a block: \<^term>\<open>Null\<close>; reading its \<open>type\<close> throws.
\<close>

datatype mcontent = Blocks "block list" | NotArray

record message =
  role :: string
  content :: mcontent

record entry =
  etype :: string
  timestamp :: "string option"
  message :: "message option"

text \<open>A value of the correlation map: \<open>{content, is_error}\<close>.\<close>

record tool_result =
  r_content :: "string option"
  r_is_error :: bool

section \<open>The environment of a run\<close>

text \<open>
  What the exporters read besides the log: the constants \<open>PROJECT_ROOT\<close> and
  \<open>PROJECT_NAME\<close> computed at start-up, the output of the three \<open>git\<close> commands
  (\<^term>\<open>None\<close> when \<open>execSync\<close> throws), the clock (\<open>new Date().toISOString()\<close>) and the
  session directory as \<open>readdirSync\<close> lists it, each name with its file (\<^term>\<open>None\<close> when
  the file cannot be read). Four functions of the JavaScript runtime are taken as they
  are: \<open>date_ms s\<close> is \<open>new Date(s).getTime()\<close>, \<^term>\<open>None\<close> for \<open>NaN\<close>; \<open>iso_string s\<close>
  is \<open>new Date(s).toISOString()\<close>, \<^term>\<open>None\<close> when it throws; \<open>file_content_match s\<close> is
  the test of \<open>s\<close> against the regular expression for numbered lines, whose arrow is
  not a character of this model; and \<open>parse_line\<close> is \<open>JSON.parse\<close> of one line read as a
  record, \<^term>\<open>None\<close> when it throws.
\<close>

record log_file =
  bytes :: string
  mtime :: int

record env =
  PROJECT_ROOT :: string
  PROJECT_NAME :: string
  git_branch_out :: "string option"
  git_log_out :: "string option"
  git_status_out :: "string option"
  clock :: string
  sessions :: "(string \<times> log_file option) list"
  date_ms :: "string \<Rightarrow> int option"
  iso_string :: "string \<Rightarrow> string option"
  file_content_match :: "string \<Rightarrow> bool"
  parse_line :: "string \<Rightarrow> entry option"

section \<open>Errors\<close>

text \<open>
  What ends a run early: \<open>main\<close> finds no session file (it prints a message and
  exits); a date that does not parse is formatted (\<open>toISOString\<close> throws a
  \<open>RangeError\<close>); a property is read of \<open>null\<close>, or a method is called on a text that is
  absent (a \<open>TypeError\<close>). No exporter catches the last two, so they end the function
  that was running and its callers.
\<close>

datatype error = NoSessionFiles | RangeError | TypeError

text \<open>A loop whose body may throw: the first error ends it.\<close>

fun foldE :: "('a \<Rightarrow> 's \<Rightarrow> error + 's) \<Rightarrow> 'a list \<Rightarrow> 's \<Rightarrow> error + 's" where
  "foldE f [] st = Inr st"
| "foldE f (x # xs) st = (case f x st of Inl err \<Rightarrow> Inl err | Inr st' \<Rightarrow> foldE f xs st')"

section \<open>The compact projection\<close>

text \<open>
  The object \<open>extractHandoff\<close> returns, after \<open>JSON.parse(JSON.stringify(handoff))\<close>: a
  field whose value was \<open>undefined\<close> is absent (\<^term>\<open>None\<close>); a \<open>null\<close> stays, and is
  \<^term>\<open>None\<close> in \<open>s_started\<close>, \<open>s_ended\<close> and \<open>s_duration_minutes\<close> (a \<open>NaN\<close> is written as
  \<open>null\<close>). A field \<open>failed\<close> is either absent or \<open>true\<close>: \<open>a_failed\<close> tells which.
\<close>

record edit =
  removed :: string
  added :: string
  e_replace_all :: bool

record change_info =
  ci_action :: string
  ci_summary :: "string option"
  ci_edits :: "edit list option"

record change =
  c_file :: string
  c_action :: string
  c_summary :: "string option"
  c_edits :: "edit list option"

record error_entry =
  er_tool :: "string option"
  er_error :: string
  er_input_summary :: string

record action_entry =
  a_command :: string
  a_description :: "string option"
  a_failed :: bool
  a_output :: "string option"
  a_agent :: "string option"
  a_result :: "string option"

record search_entry =
  se_type :: string
  se_pattern :: "string option"
  se_path :: "string option"
  se_glob :: "string option"
  se_matches :: "nat option"

record searches_summary =
  ss_count :: nat
  ss_unique_patterns :: "search_entry list"

record digest_entry =
  d_turn :: nat
  d_role :: string
  d_content :: string

record progress =
  completed :: "string list"
  in_progress :: "string list"
  pending :: "string list"

record session =
  s_id :: string
  s_project :: string
  s_branch :: string
  s_started :: "string option"
  s_ended :: "string option"
  s_duration_minutes :: "int option"
  s_tool_calls :: nat
  s_error_count :: nat

record git =
  g_branch :: string
  g_recent_commits :: "string list"
  g_uncommitted_files :: "string list"

record git_context =
  gc_branch :: string
  gc_recent_commits :: "string list"
  gc_uncommitted_changes :: "string list option"

record handoff =
  h_format :: string
  h_version :: string
  h_purpose :: string
  h_tool :: string
  h_session :: session
  h_task :: string
  h_progress :: progress
  h_changes :: "change list"
  h_files_read :: "string list"
  h_errors :: "error_entry list option"
  h_actions :: "action_entry list option"
  h_searches :: "searches_summary option"
  h_conversation_digest :: "digest_entry list"
  h_git_context :: git_context

text \<open>The variables of the main loop of \<open>extractHandoff\<close>, and of its digest loop.\<close>

record acc =
  userMessages :: "string list"
  fileChanges :: "(string \<times> change_info) list"
  filesRead :: "string list"
  errors :: "error_entry list"
  actions :: "action_entry list"
  searches :: "search_entry list"
  latestTodos :: "todo list option"
  toolCallCount :: nat

record digest_state =
  digest :: "digest_entry list"
  turnNum :: nat

section \<open>The narrative projection\<close>

text \<open>The options of the Markdown exporter, its statistics and the state of its loop.\<close>

record opts =
  includeThinking :: bool
  includeResults :: bool
  maxResultLines :: int

record stats =
  userTurns :: nat
  assistantMessages :: nat
  toolCalls :: nat
  toolErrors :: nat
  thinkingBlocks :: nat
  toolBreakdown :: "(string \<times> nat) list"
  st_filesRead :: "string list"
  st_filesWritten :: "string list"
  st_filesEdited :: "string list"
  bashCommands :: nat
  st_searches :: nat
  duration_start :: "string option"
  duration_end :: "string option"

record git_md =
  gm_branch :: string
  gm_recentCommits :: string

record md_state =
  parts :: "string list"
  turnCount :: nat

section \<open>JavaScript strings\<close>

text \<open>
  A JavaScript string is a sequence of code units; it is modelled as a \<^typ>\<open>string\<close>, one
  \<^typ>\<open>char\<close> for each code unit, so \<open>s.length\<close> is \<^term>\<open>length s\<close> and
  \<open>s.substring(0, n)\<close> is \<^term>\<open>take n s\<close>. The value \<open>undefined\<close> of an absent
  field is \<^term>\<open>None\<close>; a string is truthy when it is present and not empty.
\<close>

definition truthy :: "string option \<Rightarrow> bool" where
  "truthy v = (case v of None \<Rightarrow> False | Some s \<Rightarrow> s \<noteq> [])"

definition startsWith :: "string \<Rightarrow> string \<Rightarrow> bool" where
  "startsWith s p = (take (length p) s = p)"

definition endsWith :: "string \<Rightarrow> string \<Rightarrow> bool" where
  "endsWith s p = (length p \<le> length s \<and> drop (length s - length p) s = p)"

text \<open>The white space and line terminators that \<open>trim\<close> removes, among the code units below 256.\<close>

definition isWhite :: "char \<Rightarrow> bool" where
  "isWhite c = (c \<in> {CHR 0x09, CHR 0x0A, CHR 0x0B, CHR 0x0C, CHR 0x0D, CHR 0x20, CHR 0xA0})"

definition trim :: "string \<Rightarrow> string" where
  "trim s = rev (dropWhile isWhite (rev (dropWhile isWhite s)))"

text \<open>\<open>s.split(c)\<close> for a one-character separator: the empty string gives one empty piece.\<close>

fun splitOn :: "char \<Rightarrow> string \<Rightarrow> string list" where
  "splitOn c [] = [[]]"
| "splitOn c (x # xs) =
     (if x = c then [] # splitOn c xs
      else (x # hd (splitOn c xs)) # tl (splitOn c xs))"

text \<open>\<open>xs.join(sep)\<close>.\<close>

fun join :: "string \<Rightarrow> string list \<Rightarrow> string" where
  "join sep [] = []"
| "join sep [x] = x"
| "join sep (x # y # ys) = x @ sep @ join sep (y # ys)"

text \<open>The decimal numeral a template literal prints for a natural number.\<close>

fun showNat :: "nat \<Rightarrow> string" where
  "showNat n =
     (if n < 10 then [''0123456789'' ! n]
      else showNat (n div 10) @ [''0123456789'' ! (n mod 10)])"

declare showNat.simps [simp del]

section \<open>Truncation\<close>

text \<open>
  \<open>truncate(text, max)\<close> of the compact exporter. \<open>text\<close> may be \<open>undefined\<close>; \<open>max\<close>
  is an integer, and \<open>substring\<close> reads a negative end as 0.
\<close>

definition truncate :: "string option \<Rightarrow> int \<Rightarrow> string" where
  "truncate text mx =
     (case text of
        None \<Rightarrow> []
      | Some t \<Rightarrow>
          if t = [] \<or> int (length t) \<le> mx then t
          else take (nat mx) t @ ''...'')"

text \<open>\<open>truncateChars(text, maxChars)\<close> of the Markdown exporter; the marker reports both lengths.\<close>

definition truncateChars :: "string \<Rightarrow> nat \<Rightarrow> string" where
  "truncateChars text maxChars =
     (if length text \<le> maxChars then text
      else take maxChars text
           @ [CHR 0x0A] @ ''... (truncated at '' @ showNat maxChars
           @ '' chars, total '' @ showNat (length text) @ '')'')"


section \<open>Reading the log\<close>

text \<open>\<open>entry.message?.content\<close> when it is an array.\<close>

definition contentArray :: "entry \<Rightarrow> block list option" where
  "contentArray e =
     (case message e of
        None \<Rightarrow> None
      | Some m \<Rightarrow> (case content m of Blocks bs \<Rightarrow> Some bs | NotArray \<Rightarrow> None))"

text \<open>\<open>entry.message?.role\<close>.\<close>

definition roleOf :: "entry \<Rightarrow> string" where
  "roleOf e = (case message e of None \<Rightarrow> [] | Some m \<Rightarrow> role m)"

text \<open>
  \<open>content.some((c) => c.type === "tool_result")\<close> and
  \<open>content.some((c) => c.type === "text")\<close>: \<open>some\<close> reads the type of the elements
  from the first on and stops at the first that passes the test, so it throws when a
  \<open>null\<close> comes before every such element.
\<close>

fun isToolResultBlock :: "block \<Rightarrow> bool" where
  "isToolResultBlock (ToolResult tid c err) = True"
| "isToolResultBlock b = False"

fun isTextBlock :: "block \<Rightarrow> bool" where
  "isTextBlock (Text t) = True"
| "isTextBlock b = False"

fun someBlock :: "(block \<Rightarrow> bool) \<Rightarrow> block list \<Rightarrow> error + bool" where
  "someBlock p [] = Inr False"
| "someBlock p (b # bs) =
     (if b = Null then Inl TypeError else if p b then Inr True else someBlock p bs)"

text \<open>
  Whether a block of the array is a tool result: the value of the test above when it
  does not throw.
\<close>

definition isToolResult :: "block list \<Rightarrow> bool" where
  "isToolResult bs = list_ex isToolResultBlock bs"

section \<open>The correlation map\<close>

type_synonym result_map = "string \<rightharpoonup> tool_result"

text \<open>
  \<open>toolResultMap\<close> is an object used as a dictionary, read by key only; a key that names
  a property of \<open>Object.prototype\<close> is not modelled.
\<close>

text \<open>
  \<open>typeof block.content === "string" ? block.content : JSON.stringify(block.content)\<close>;
  \<open>JSON.stringify(undefined)\<close> is \<open>undefined\<close>.
\<close>

fun resultText :: "result_content \<Rightarrow> string option" where
  "resultText (ResString s) = Some s"
| "resultText (ResJson j) = Some j"
| "resultText ResAbsent = None"

text \<open>
  The body of the inner loop of \<open>buildToolResultMap\<close>: one block, the map updated.
  \<open>block.type\<close> throws when the block is \<open>null\<close>.
\<close>

fun addResult :: "block \<Rightarrow> result_map \<Rightarrow> error + result_map" where
  "addResult Null m = Inl TypeError"
| "addResult (ToolResult tid c err) m =
     Inr (case tid of
            None \<Rightarrow> m
          | Some k \<Rightarrow>
              if k \<noteq> [] then m(k \<mapsto> \<lparr>r_content = resultText c, r_is_error = err\<rparr>) else m)"
| "addResult b m = Inr m"

text \<open>The body of the outer loop: one entry.\<close>

definition addEntryResults :: "entry \<Rightarrow> result_map \<Rightarrow> error + result_map" where
  "addEntryResults e m =
     (if etype e \<noteq> ''user'' then Inr m
      else case contentArray e of
             None \<Rightarrow> Inr m
           | Some bs \<Rightarrow> foldE addResult bs m)"

definition buildToolResultMap :: "entry list \<Rightarrow> error + result_map" where
  "buildToolResultMap entries = foldE addEntryResults entries Map.empty"

text \<open>
  The outcomes of a log in file order, as the specification counts them: the
  \<open>tool_result\<close> blocks with a correlation id inside the user records, each with its id.
\<close>

fun outcomeOf :: "block \<Rightarrow> (string \<times> tool_result) list" where
  "outcomeOf (ToolResult tid c err) =
     (case tid of
        None \<Rightarrow> []
      | Some k \<Rightarrow> if k \<noteq> [] then [(k, \<lparr>r_content = resultText c, r_is_error = err\<rparr>)] else [])"
| "outcomeOf b = []"

definition entryOutcomes :: "entry \<Rightarrow> (string \<times> tool_result) list" where
  "entryOutcomes e =
     (if etype e \<noteq> ''user'' then []
      else case contentArray e of None \<Rightarrow> [] | Some bs \<Rightarrow> concat (map outcomeOf bs))"

definition outcomes :: "entry list \<Rightarrow> (string \<times> tool_result) list" where
  "outcomes entries = concat (map entryOutcomes entries)"

text \<open>
  What a map holds after a list of outcomes was written into it, the last one winning,
  and the map that the outcomes of a log give.
\<close>

definition lastFor :: "string \<Rightarrow> (string \<times> tool_result) list \<Rightarrow> tool_result option \<Rightarrow> tool_result option" where
  "lastFor k ps d =
     (case filter (\<lambda>p. fst p = k) ps of [] \<Rightarrow> d | q # qs \<Rightarrow> Some (snd (last (q # qs))))"

definition outcomeMap :: "entry list \<Rightarrow> result_map" where
  "outcomeMap entries = (\<lambda>k. lastFor k (outcomes entries) None)"

text \<open>
  A record passes \<open>buildToolResultMap\<close> when it is not of type \<open>user\<close>, or its content is
  not an array, or the array holds no \<open>null\<close>.
\<close>

definition entryReturns :: "entry \<Rightarrow> bool" where
  "entryReturns e =
     (if etype e = ''user''
      then (case contentArray e of None \<Rightarrow> True | Some bs \<Rightarrow> Null \<notin> set bs)
      else True)"

definition noNullOutcome :: "entry list \<Rightarrow> bool" where
  "noNullOutcome entries = list_all entryReturns entries"

section \<open>Helpers of the exporters\<close>

text \<open>
  One replacement of \<open>stripSystemTags\<close>, \<open>text.replace(/<tag>[\s\S]*?<\/tag>/g, "")\<close>:
  every stretch from an opening tag to the nearest closing tag after it is removed, from
  left to right. \<open>findAfter pat s\<close> is the text after the first \<open>pat\<close> in \<open>s\<close>.
\<close>

fun findAfter :: "string \<Rightarrow> string \<Rightarrow> string option" where
  "findAfter pat [] = (if pat = [] then Some [] else None)"
| "findAfter pat (x # xs) =
     (if startsWith (x # xs) pat then Some (drop (length pat) (x # xs))
      else findAfter pat xs)"

lemma findAfter_length: "findAfter pat s = Some r \<Longrightarrow> length r \<le> length s"
  by (induction s) (auto split: if_splits)

function removeTagged :: "string \<Rightarrow> string \<Rightarrow> string" where
  "removeTagged tag s =
     (if s = [] then []
      else if startsWith s (''<'' @ tag @ ''>'') then
        (case findAfter (''</'' @ tag @ ''>'') (drop (length (''<'' @ tag @ ''>'')) s) of
           Some rest \<Rightarrow> removeTagged tag rest
         | None \<Rightarrow> s)
      else hd s # removeTagged tag (tl s))"
  by pat_completeness auto
termination
proof (relation "measure (\<lambda>(tag, s). length s)")
  show "wf (measure (\<lambda>(tag, s). length s))" by simp
next
  fix tag s :: string and rest :: string
  assume "s \<noteq> []"
    and "findAfter (''</'' @ tag @ ''>'') (drop (length (''<'' @ tag @ ''>'')) s) = Some rest"
  then have "length rest \<le> length (drop (length (''<'' @ tag @ ''>'')) s)"
    by (intro findAfter_length)
  with \<open>s \<noteq> []\<close> show "((tag, rest), (tag, s)) \<in> measure (\<lambda>(tag, s). length s)"
    by (cases s) auto
next
  fix tag s :: string
  assume "s \<noteq> []"
  then show "((tag, tl s), (tag, s)) \<in> measure (\<lambda>(tag, s). length s)"
    by (cases s) auto
qed

declare removeTagged.simps [simp del]

definition stripSystemTags :: "string \<Rightarrow> string" where
  "stripSystemTags text =
     trim (removeTagged ''command-name''
       (removeTagged ''command-message''
         (removeTagged ''user-prompt-submit-hook''
           (removeTagged ''ide_selection''
             (removeTagged ''ide_opened_file''
               (removeTagged ''system-reminder'' text))))))"

text \<open>\<open>s.replace(/\\/g, "/")\<close>.\<close>

definition slashes :: "string \<Rightarrow> string" where
  "slashes s = map (\<lambda>c. if c = CHR 0x5C then CHR ''/'' else c) s"

text \<open>\<open>s.lastIndexOf(p)\<close>, \<^term>\<open>None\<close> for -1.\<close>

definition lastIndexOf :: "string \<Rightarrow> string \<Rightarrow> nat option" where
  "lastIndexOf s p =
     (case filter (\<lambda>i. startsWith (drop i s) p) (rev [0..<Suc (length s)]) of
        [] \<Rightarrow> None
      | i # _ \<Rightarrow> Some i)"

definition shortPath :: "env \<Rightarrow> string option \<Rightarrow> string" where
  "shortPath w fp =
     (let normalized = slashes (case fp of None \<Rightarrow> [] | Some f \<Rightarrow> f);
          rootNormalized = slashes (PROJECT_ROOT w)
      in if startsWith normalized rootNormalized
         then drop (length rootNormalized + 1) normalized
         else case lastIndexOf normalized (PROJECT_NAME w) of
                Some projIdx \<Rightarrow> drop (projIdx + length (PROJECT_NAME w) + 1) normalized
              | None \<Rightarrow> normalized)"

text \<open>\<open>s.split("\n").filter(Boolean)\<close>.\<close>

definition nonEmptyLines :: "string \<Rightarrow> string list" where
  "nonEmptyLines s = filter (\<lambda>l. l \<noteq> []) (splitOn (CHR 0x0A) s)"

text \<open>\<open>getGitContext\<close> of the compact exporter: the three commands, or the defaults.\<close>

definition getGitContext :: "env \<Rightarrow> git" where
  "getGitContext w =
     (case (git_branch_out w, git_log_out w, git_status_out w) of
        (Some b, Some l, Some st) \<Rightarrow>
          \<lparr>g_branch = trim b,
           g_recent_commits = nonEmptyLines (trim l),
           g_uncommitted_files = map (\<lambda>f. shortPath w (Some f)) (nonEmptyLines (trim st))\<rparr>
      | _ \<Rightarrow> \<lparr>g_branch = ''unknown'', g_recent_commits = [], g_uncommitted_files = []\<rparr>)"

section \<open>The main loop of the compact exporter\<close>

text \<open>
  The user branch: every text block whose cleaned text is not empty is one message.
  \<open>userMessageOf\<close> is what a block with its text adds; \<open>pushUserMessage\<close> is the body of
  the loop, where \<open>block.type\<close> throws on \<open>null\<close> and \<open>stripSystemTags(block.text)\<close>
  throws on a text that is absent.
\<close>

fun userMessageOf :: "block \<Rightarrow> string list" where
  "userMessageOf (Text (Some t)) =
     (let cleaned = stripSystemTags t
      in if cleaned \<noteq> [] then [truncate (Some cleaned) 500] else [])"
| "userMessageOf b = []"

fun pushUserMessage :: "block \<Rightarrow> acc \<Rightarrow> error + acc" where
  "pushUserMessage Null a = Inl TypeError"
| "pushUserMessage (Text None) a = Inl TypeError"
| "pushUserMessage b a = Inr (a\<lparr>userMessages := userMessages a @ userMessageOf b\<rparr>)"

text \<open>
  The assistant branch, for one \<open>tool_use\<close> block with \<open>name\<close>, \<open>input\<close> and the \<open>result\<close>
  found in the correlation map. First the error list.
\<close>

definition resultIsError :: "tool_result option \<Rightarrow> bool" where
  "resultIsError result = (case result of None \<Rightarrow> False | Some r \<Rightarrow> r_is_error r)"

definition resultContent :: "tool_result option \<Rightarrow> string option" where
  "resultContent result = (case result of None \<Rightarrow> None | Some r \<Rightarrow> r_content r)"

definition pushError :: "env \<Rightarrow> string option \<Rightarrow> tool_input \<Rightarrow> tool_result option \<Rightarrow> acc \<Rightarrow> acc" where
  "pushError w name input result a =
     (if resultIsError result then
        a\<lparr>errors := errors a @
          [\<lparr>er_tool = name,
            er_error = truncate (resultContent result) 300,
            er_input_summary =
              (if name = Some ''Bash'' then truncate (in_command input) 200
               else if name = Some ''Read'' \<or> name = Some ''Write'' \<or> name = Some ''Edit''
                 then shortPath w (in_file_path input)
               else truncate (Some (in_json input)) 200)\<rparr>]\<rparr>
      else a)"

text \<open>
  \<open>fileChanges\<close> is an object used as a dictionary: an association list in insertion
  order, where an assignment to a key already there keeps the key's place. Two traits
  of JavaScript objects are left out of the model. A key that names a property of
  \<open>Object.prototype\<close> (such as \<open>constructor\<close>) is found there before any assignment, so
  that an \<open>Edit\<close> of such a short path writes into the inherited value and makes no key,
  and a \<open>Write\<close> of \<open>__proto__\<close> replaces the prototype and makes no key either. Keys
  that read as array indices are enumerated first, in numeric order. The results on
  \<open>fileChanges\<close> are stated for the logs without short paths of the first kind
  (\<open>ownKeyPaths\<close>, below), and do not depend on the order of the keys.
\<close>

definition writeSummary :: "tool_input \<Rightarrow> string" where
  "writeSummary input =
     (case in_content input of
        None \<Rightarrow> ''file created''
      | Some c \<Rightarrow>
          if c \<noteq> [] then showNat (length (splitOn (CHR 0x0A) c)) @ '' lines written''
          else ''file created'')"

definition markModified :: "string \<Rightarrow> (string \<times> change_info) list \<Rightarrow> (string \<times> change_info) list" where
  "markModified sp fc =
     (case map_of fc sp of
        None \<Rightarrow> AList.update sp \<lparr>ci_action = ''modified'', ci_summary = None, ci_edits = Some []\<rparr> fc
      | Some info \<Rightarrow> AList.update sp (info\<lparr>ci_action := ''modified''\<rparr>) fc)"

definition pushEdit :: "string \<Rightarrow> edit \<Rightarrow> (string \<times> change_info) list \<Rightarrow> (string \<times> change_info) list" where
  "pushEdit sp ed fc =
     (case map_of fc sp of
        None \<Rightarrow> fc
      | Some info \<Rightarrow>
          AList.update sp
            (info\<lparr>ci_edits := Some ((case ci_edits info of None \<Rightarrow> [] | Some es \<Rightarrow> es) @ [ed])\<rparr>) fc)"

definition setAdd :: "string list \<Rightarrow> string \<Rightarrow> string list" where
  "setAdd xs x = (if x \<in> set xs then xs else xs @ [x])"

definition recordFile :: "env \<Rightarrow> string option \<Rightarrow> tool_input \<Rightarrow> acc \<Rightarrow> acc" where
  "recordFile w name input a =
     (if name = Some ''Write'' \<and> truthy (in_file_path input) then
        a\<lparr>fileChanges :=
            AList.update (shortPath w (in_file_path input))
              \<lparr>ci_action = ''created'', ci_summary = Some (writeSummary input), ci_edits = None\<rparr>
              (fileChanges a)\<rparr>
      else if name = Some ''Edit'' \<and> truthy (in_file_path input) then
        (let sp = shortPath w (in_file_path input);
             fc = markModified sp (fileChanges a)
         in a\<lparr>fileChanges :=
              (case (in_old_string input, in_new_string input) of
                 (Some old, Some new) \<Rightarrow>
                   pushEdit sp
                     \<lparr>removed = truncate (Some old) 200, added = truncate (Some new) 200,
                      e_replace_all = in_replace_all input\<rparr> fc
               | _ \<Rightarrow> fc)\<rparr>)
      else if name = Some ''Read'' \<and> truthy (in_file_path input) then
        a\<lparr>filesRead := setAdd (filesRead a) (shortPath w (in_file_path input))\<rparr>
      else a)"

text \<open>The notable shell commands.\<close>

definition someIfTruthy :: "string option \<Rightarrow> string option" where
  "someIfTruthy v = (if truthy v then v else None)"

definition bashOutput :: "tool_result option \<Rightarrow> string option" where
  "bashOutput result =
     (case resultContent result of
        None \<Rightarrow> None
      | Some c \<Rightarrow>
          if c = [] then None
          else if length (splitOn (CHR 0x0A) c) \<le> 5 then Some (trim c)
          else Some (truncate (Some c) 200))"

definition bashAction :: "string option \<Rightarrow> tool_input \<Rightarrow> tool_result option \<Rightarrow> action_entry list" where
  "bashAction name input result =
     (if name = Some ''Bash'' \<and> truthy (in_command input) then
        (let cmd = trim (case in_command input of None \<Rightarrow> [] | Some c \<Rightarrow> c)
         in if length cmd > 5 \<and> \<not> startsWith cmd ''echo '' then
              [\<lparr>a_command = truncate (Some cmd) 300,
                a_description = someIfTruthy (in_description input),
                a_failed = resultIsError result,
                a_output = (if resultIsError result then None else bashOutput result),
                a_agent = None,
                a_result = None\<rparr>]
            else [])
      else [])"

text \<open>The searches.\<close>

definition matchCount :: "tool_result option \<Rightarrow> nat option" where
  "matchCount result =
     (case resultContent result of
        None \<Rightarrow> None
      | Some c \<Rightarrow> if c = [] then None else Some (length (nonEmptyLines c)))"

definition searchOf :: "env \<Rightarrow> string option \<Rightarrow> tool_input \<Rightarrow> tool_result option \<Rightarrow> search_entry list" where
  "searchOf w name input result =
     (if name = Some ''Grep'' then
        [\<lparr>se_type = ''grep'', se_pattern = in_pattern input,
          se_path = (if truthy (in_path input) then Some (shortPath w (in_path input)) else None),
          se_glob = someIfTruthy (in_glob input),
          se_matches = matchCount result\<rparr>]
      else if name = Some ''Glob'' then
        [\<lparr>se_type = ''glob'', se_pattern = in_pattern input,
          se_path = (if truthy (in_path input) then Some (shortPath w (in_path input)) else None),
          se_glob = None,
          se_matches = matchCount result\<rparr>]
      else [])"

text \<open>The delegated tasks.\<close>

definition taskAction :: "string option \<Rightarrow> tool_input \<Rightarrow> tool_result option \<Rightarrow> action_entry list" where
  "taskAction name input result =
     (if name = Some ''Task'' then
        [\<lparr>a_command =
            truncate (if truthy (in_command input) then in_command input else in_prompt input) 300,
          a_description = someIfTruthy (in_description input),
          a_failed = resultIsError result,
          a_output = None,
          a_agent =
            Some (case in_subagent_type input of
                    None \<Rightarrow> ''unknown''
                  | Some t \<Rightarrow> if t \<noteq> [] then t else ''unknown''),
          a_result =
            (if truthy (resultContent result) then Some (truncate (resultContent result) 300)
             else None)\<rparr>]
      else [])"

text \<open>\<open>toolResultMap[block.id]\<close>: an absent id reads the key \<open>"undefined"\<close>.\<close>

definition idKey :: "string option \<Rightarrow> string" where
  "idKey i = (case i of None \<Rightarrow> ''undefined'' | Some k \<Rightarrow> k)"

text \<open>
  One block of an assistant record: \<open>toolStep\<close> is the body of the loop for a block that
  is not \<open>null\<close>, and \<open>blockStep\<close> the body with the error of \<open>block.type\<close> on \<open>null\<close>.
\<close>

fun toolStep :: "env \<Rightarrow> result_map \<Rightarrow> block \<Rightarrow> acc \<Rightarrow> acc" where
  "toolStep w toolResultMap (ToolUse name i input) a =
     (let result = toolResultMap (idKey i);
          a1 = a\<lparr>toolCallCount := toolCallCount a + 1\<rparr>;
          a2 = pushError w name input result a1;
          a3 = recordFile w name input a2;
          a4 = a3\<lparr>actions := actions a3 @ bashAction name input result\<rparr>;
          a5 = a4\<lparr>searches := searches a4 @ searchOf w name input result\<rparr>;
          a6 = (if name = Some ''TodoWrite'' \<and> in_todos input \<noteq> None
                then a5\<lparr>latestTodos := in_todos input\<rparr> else a5)
      in a6\<lparr>actions := actions a6 @ taskAction name input result\<rparr>)"
| "toolStep w toolResultMap b a = a"

definition blockStep :: "env \<Rightarrow> result_map \<Rightarrow> block \<Rightarrow> acc \<Rightarrow> error + acc" where
  "blockStep w toolResultMap b a =
     (if b = Null then Inl TypeError else Inr (toolStep w toolResultMap b a))"

text \<open>
  One entry of the main loop. A user record that holds a \<open>tool_result\<close> block ends the
  iteration (\<open>continue\<close>); otherwise both branches are tested in turn.
\<close>

definition isUser :: "entry \<Rightarrow> bool" where
  "isUser e = (etype e = ''user'' \<and> roleOf e = ''user'')"

definition isAssistant :: "entry \<Rightarrow> bool" where
  "isAssistant e = (etype e = ''assistant'' \<and> roleOf e = ''assistant'')"

definition entryStep :: "env \<Rightarrow> result_map \<Rightarrow> entry \<Rightarrow> acc \<Rightarrow> error + acc" where
  "entryStep w toolResultMap e a =
     (case contentArray e of
        None \<Rightarrow> Inr a
      | Some bs \<Rightarrow>
          (case (if isUser e then someBlock isToolResultBlock bs else Inr False) of
             Inl err \<Rightarrow> Inl err
           | Inr True \<Rightarrow> Inr a
           | Inr False \<Rightarrow>
               (case (if isUser e then foldE pushUserMessage bs a else Inr a) of
                  Inl err \<Rightarrow> Inl err
                | Inr a1 \<Rightarrow>
                    if isAssistant e then foldE (blockStep w toolResultMap) bs a1 else Inr a1)))"

definition initAcc :: acc where
  "initAcc =
     \<lparr>userMessages = [], fileChanges = [], filesRead = [], errors = [], actions = [],
      searches = [], latestTodos = None, toolCallCount = 0\<rparr>"

definition mainLoop :: "env \<Rightarrow> result_map \<Rightarrow> entry list \<Rightarrow> error + acc" where
  "mainLoop w toolResultMap entries = foldE (entryStep w toolResultMap) entries initAcc"

section \<open>The conversation digest\<close>

text \<open>
  The text of a record is gathered block by block. \<open>addUserText\<close> and
  \<open>addAssistantText\<close> are what a block adds to the text gathered so far;
  \<open>userTextStep\<close> and \<open>assistantTextStep\<close> are the bodies of the two loops with their
  errors: \<open>block.type\<close> throws on \<open>null\<close>, and \<open>stripSystemTags(block.text)\<close> throws on
  a text that is absent, whereas \<open>block.text?.trim()\<close> passes over it.
\<close>

fun addUserText :: "string \<Rightarrow> block \<Rightarrow> string" where
  "addUserText text (Text (Some t)) =
     (let cleaned = stripSystemTags t
      in if cleaned \<noteq> [] then text @ (if text \<noteq> [] then '' '' else []) @ cleaned else text)"
| "addUserText text b = text"

fun addAssistantText :: "string \<Rightarrow> block \<Rightarrow> string" where
  "addAssistantText text (Text (Some t)) =
     (if trim t \<noteq> [] then text @ (if text \<noteq> [] then '' '' else []) @ trim t else text)"
| "addAssistantText text b = text"

fun userTextStep :: "block \<Rightarrow> string \<Rightarrow> error + string" where
  "userTextStep Null text = Inl TypeError"
| "userTextStep (Text None) text = Inl TypeError"
| "userTextStep b text = Inr (addUserText text b)"

fun assistantTextStep :: "block \<Rightarrow> string \<Rightarrow> error + string" where
  "assistantTextStep Null text = Inl TypeError"
| "assistantTextStep b text = Inr (addAssistantText text b)"

definition pushDigest :: "string \<Rightarrow> string \<Rightarrow> digest_state \<Rightarrow> digest_state" where
  "pushDigest r text st =
     (if text \<noteq> [] then
        st\<lparr>digest := digest st @
          [\<lparr>d_turn = turnNum st, d_role = r, d_content = truncate (Some text) 300\<rparr>]\<rparr>
      else st)"

definition digestStep :: "entry \<Rightarrow> digest_state \<Rightarrow> error + digest_state" where
  "digestStep e st =
     (case contentArray e of
        None \<Rightarrow> Inr st
      | Some bs \<Rightarrow>
          (case (if isUser e then someBlock isToolResultBlock bs else Inr False) of
             Inl err \<Rightarrow> Inl err
           | Inr True \<Rightarrow> Inr st
           | Inr False \<Rightarrow>
               (case (if isUser e then
                        (case foldE userTextStep bs [] of
                           Inl err \<Rightarrow> Inl err
                         | Inr text \<Rightarrow>
                             Inr (pushDigest ''user'' text (st\<lparr>turnNum := turnNum st + 1\<rparr>)))
                      else Inr st) of
                  Inl err \<Rightarrow> Inl err
                | Inr st1 \<Rightarrow>
                    if isAssistant e then
                      (case foldE assistantTextStep bs [] of
                         Inl err \<Rightarrow> Inl err
                       | Inr text \<Rightarrow> Inr (pushDigest ''assistant'' text st1))
                    else Inr st1)))"

definition digestLoop :: "entry list \<Rightarrow> error + digest_state" where
  "digestLoop entries = foldE digestStep entries \<lparr>digest = [], turnNum = 0\<rparr>"

section \<open>Assembling the compact projection\<close>

text \<open>The first and the last truthy timestamp.\<close>

definition timestamps :: "entry list \<Rightarrow> string list" where
  "timestamps entries =
     concat (map (\<lambda>e. case timestamp e of None \<Rightarrow> [] | Some t \<Rightarrow> if t \<noteq> [] then [t] else [])
       entries)"

definition startTs :: "entry list \<Rightarrow> string option" where
  "startTs entries = (case timestamps entries of [] \<Rightarrow> None | t # ts \<Rightarrow> Some t)"

definition endTs :: "entry list \<Rightarrow> string option" where
  "endTs entries = (case timestamps entries of [] \<Rightarrow> None | t # ts \<Rightarrow> Some (last (t # ts)))"

text \<open>
  \<open>Math.round((new Date(endTs) - new Date(startTs)) / 60000)\<close>, on the integers: halves
  round up. A date that does not parse gives \<open>NaN\<close>, which is written as \<open>null\<close>.
\<close>

definition durationMin :: "env \<Rightarrow> entry list \<Rightarrow> int option" where
  "durationMin w entries =
     (case (startTs entries, endTs entries) of
        (Some s, Some e) \<Rightarrow>
          (case (date_ms w e, date_ms w s) of
             (Some te, Some ts) \<Rightarrow> Some ((te - ts + 30000) div 60000)
           | _ \<Rightarrow> None)
      | _ \<Rightarrow> Some 0)"

fun addTodo :: "todo \<Rightarrow> progress \<Rightarrow> progress" where
  "addTodo t p =
     (if t_status t = ''completed'' then p\<lparr>completed := completed p @ [t_content t]\<rparr>
      else if t_status t = ''in_progress'' then p\<lparr>in_progress := in_progress p @ [t_content t]\<rparr>
      else p\<lparr>pending := pending p @ [t_content t]\<rparr>)"

definition progressOf :: "todo list option \<Rightarrow> progress" where
  "progressOf latest =
     fold addTodo (case latest of None \<Rightarrow> [] | Some ts \<Rightarrow> ts)
       \<lparr>completed = [], in_progress = [], pending = []\<rparr>"

text \<open>The searches without duplicates of \<open>type + ":" + pattern\<close>; the first of each stays.\<close>

definition searchKey :: "search_entry \<Rightarrow> string" where
  "searchKey s =
     se_type s @ '':'' @ (case se_pattern s of None \<Rightarrow> ''undefined'' | Some p \<Rightarrow> p)"

fun addUnique :: "search_entry \<Rightarrow> string list \<times> search_entry list \<Rightarrow> string list \<times> search_entry list" where
  "addUnique s (seen, uniq) =
     (if searchKey s \<in> set seen then (seen, uniq) else (searchKey s # seen, uniq @ [s]))"

definition uniqueSearches :: "search_entry list \<Rightarrow> search_entry list" where
  "uniqueSearches ss = snd (fold addUnique ss ([], []))"

definition changeOf :: "string \<times> change_info \<Rightarrow> change" where
  "changeOf p =
     \<lparr>c_file = fst p, c_action = ci_action (snd p),
      c_summary = someIfTruthy (ci_summary (snd p)),
      c_edits = (case ci_edits (snd p) of
                   None \<Rightarrow> None
                 | Some es \<Rightarrow> if length es > 0 then Some es else None)\<rparr>"

text \<open>The object that \<open>extractHandoff\<close> assembles from what the loops gathered.\<close>

definition assemble :: "env \<Rightarrow> entry list \<Rightarrow> string \<Rightarrow> git \<Rightarrow> acc \<Rightarrow> digest_state \<Rightarrow> handoff" where
  "assemble w entries sessionId git a d =
    \<lparr>h_format = ''claude-code-handoff'',
     h_version = ''1.0'',
     h_purpose = ''Structured session export for AI agent continuation. Read this to understand what was done, what changed, and what remains.'',
     h_tool = ''claude-export (https://github.com/stephenpham68/claude-export)'',
     h_session =
       \<lparr>s_id = sessionId, s_project = PROJECT_NAME w, s_branch = g_branch git,
        s_started = startTs entries, s_ended = endTs entries,
        s_duration_minutes = durationMin w entries,
        s_tool_calls = toolCallCount a, s_error_count = length (errors a)\<rparr>,
     h_task =
       (case userMessages a of
          [] \<Rightarrow> ''(no task detected)''
        | m # ms \<Rightarrow> if m \<noteq> [] then m else ''(no task detected)''),
     h_progress = progressOf (latestTodos a),
     h_changes = map changeOf (fileChanges a),
     h_files_read = filesRead a,
     h_errors = (if length (errors a) > 0 then Some (errors a) else None),
     h_actions = (if length (actions a) > 0 then Some (actions a) else None),
     h_searches =
       (if length (uniqueSearches (searches a)) > 0
        then Some \<lparr>ss_count = length (searches a),
                   ss_unique_patterns = uniqueSearches (searches a)\<rparr>
        else None),
     h_conversation_digest = digest d,
     h_git_context =
       \<lparr>gc_branch = g_branch git, gc_recent_commits = g_recent_commits git,
        gc_uncommitted_changes =
          (if length (g_uncommitted_files git) > 0
           then Some (take 20 (g_uncommitted_files git)) else None)\<rparr>\<rparr>"

text \<open>
  \<open>extractHandoff\<close>: the correlation map, the \<open>git\<close> context, the main loop and the
  digest loop in this order; an error of one of them ends the function.
\<close>

definition extractHandoff :: "env \<Rightarrow> entry list \<Rightarrow> string \<Rightarrow> error + handoff" where
  "extractHandoff w entries sessionId =
     (case buildToolResultMap entries of
        Inl err \<Rightarrow> Inl err
      | Inr toolResultMap \<Rightarrow>
          (let git = getGitContext w
           in case mainLoop w toolResultMap entries of
                Inl err \<Rightarrow> Inl err
              | Inr a \<Rightarrow>
                  (case digestLoop entries of
                     Inl err \<Rightarrow> Inl err
                   | Inr d \<Rightarrow> Inr (assemble w entries sessionId git a d))))"

section \<open>The loops on a log where nothing throws\<close>

text \<open>
  When no block of a log makes a loop throw, each loop is a fold of what its body adds.
  These folds are the values of \<open>mainLoop\<close>, \<open>digestLoop\<close> and \<open>extractHandoff\<close> whenever
  they return one; they are used to reason about those values.
\<close>

definition plainPushUserMessages :: "block list \<Rightarrow> acc \<Rightarrow> acc" where
  "plainPushUserMessages bs a = a\<lparr>userMessages := userMessages a @ concat (map userMessageOf bs)\<rparr>"

definition plainEntryStep :: "env \<Rightarrow> result_map \<Rightarrow> entry \<Rightarrow> acc \<Rightarrow> acc" where
  "plainEntryStep w toolResultMap e a =
     (case contentArray e of
        None \<Rightarrow> a
      | Some bs \<Rightarrow>
          if isUser e \<and> isToolResult bs then a
          else
            (let a1 = (if isUser e then plainPushUserMessages bs a else a)
             in if isAssistant e then fold (toolStep w toolResultMap) bs a1 else a1))"

definition plainMainLoop :: "env \<Rightarrow> result_map \<Rightarrow> entry list \<Rightarrow> acc" where
  "plainMainLoop w toolResultMap entries = fold (plainEntryStep w toolResultMap) entries initAcc"

definition userText :: "block list \<Rightarrow> string" where
  "userText bs = foldl addUserText [] bs"

definition assistantText :: "block list \<Rightarrow> string" where
  "assistantText bs = foldl addAssistantText [] bs"

definition plainDigestStep :: "entry \<Rightarrow> digest_state \<Rightarrow> digest_state" where
  "plainDigestStep e st =
     (case contentArray e of
        None \<Rightarrow> st
      | Some bs \<Rightarrow>
          if isUser e \<and> isToolResult bs then st
          else
            (let st1 = (if isUser e
                        then pushDigest ''user'' (userText bs) (st\<lparr>turnNum := turnNum st + 1\<rparr>)
                        else st)
             in if isAssistant e then pushDigest ''assistant'' (assistantText bs) st1 else st1))"

definition plainDigestLoop :: "entry list \<Rightarrow> digest_state" where
  "plainDigestLoop entries = fold plainDigestStep entries \<lparr>digest = [], turnNum = 0\<rparr>"

definition plainHandoff :: "env \<Rightarrow> entry list \<Rightarrow> string \<Rightarrow> handoff" where
  "plainHandoff w entries sessionId =
     assemble w entries sessionId (getGitContext w)
       (plainMainLoop w (outcomeMap entries) entries) (plainDigestLoop entries)"

text \<open>
  A log is well formed when no array of blocks holds \<open>null\<close> or a \<open>text\<close> block without
  text; then the loops of the compact exporter do not throw.
\<close>

definition wellFormedBlock :: "block \<Rightarrow> bool" where
  "wellFormedBlock b = (b \<noteq> Null \<and> b \<noteq> Text None)"

definition wellFormedEntry :: "entry \<Rightarrow> bool" where
  "wellFormedEntry e =
     (case contentArray e of None \<Rightarrow> True | Some bs \<Rightarrow> list_all wellFormedBlock bs)"

definition wellFormed :: "entry list \<Rightarrow> bool" where
  "wellFormed entries = list_all wellFormedEntry entries"

section \<open>Turns, as the specification counts them\<close>

text \<open>
  A record opens a turn when it is a user record whose content is an array of blocks
  and not a container of tool results. It has user text when, besides, its cleaned text
  blocks are not all empty. The user segments of a digest are its entries of role
  \<open>user\<close>.
\<close>

definition opensTurn :: "entry \<Rightarrow> bool" where
  "opensTurn e =
     (case contentArray e of None \<Rightarrow> False | Some bs \<Rightarrow> isUser e \<and> \<not> isToolResult bs)"

definition hasUserText :: "entry \<Rightarrow> bool" where
  "hasUserText e =
     (case contentArray e of
        None \<Rightarrow> False
      | Some bs \<Rightarrow> isUser e \<and> \<not> isToolResult bs \<and> userText bs \<noteq> [])"


section \<open>Active session detection\<close>

text \<open>A JavaScript number that is an integer or \<open>NaN\<close> (\<^term>\<open>None\<close>).\<close>

type_synonym number = "int option"

text \<open>\<open>buf.toString("utf8").split("\\n").filter((l) => l.trim())\<close>.\<close>

definition nonBlankLines :: "string \<Rightarrow> string list" where
  "nonBlankLines s = filter (\<lambda>l. trim l \<noteq> []) (splitOn (CHR 0x0A) s)"

text \<open>
  The loop of \<open>getLastEntryTimestamp\<close> over the lines from the last to the first, given
  here in that order: the first line that parses and has a truthy timestamp decides. A
  line that does not parse, or parses to a value without timestamp, is passed over.
\<close>

fun scanBack :: "env \<Rightarrow> string list \<Rightarrow> number option" where
  "scanBack w [] = None"
| "scanBack w (l # ls) =
     (case parse_line w l of
        None \<Rightarrow> scanBack w ls
      | Some e \<Rightarrow>
          (case timestamp e of
             None \<Rightarrow> scanBack w ls
           | Some ts \<Rightarrow> if ts \<noteq> [] then Some (date_ms w ts) else scanBack w ls))"

text \<open>The bytes read: the last \<open>min(size, 16384)\<close> bytes of the file.\<close>

definition tailWindow :: "string \<Rightarrow> string" where
  "tailWindow bs =
     (let size = length bs; readSize = min size 16384
      in take readSize (drop (size - readSize) bs))"

text \<open>A file that cannot be read gives 0 (the outer \<open>catch\<close>).\<close>

definition getLastEntryTimestamp :: "env \<Rightarrow> log_file option \<Rightarrow> number" where
  "getLastEntryTimestamp w file =
     (case file of
        None \<Rightarrow> Some 0
      | Some f \<Rightarrow>
          (case scanBack w (rev (nonBlankLines (tailWindow (bytes f)))) of
             Some t \<Rightarrow> t
           | None \<Rightarrow> Some (mtime f)))"

text \<open>
  The comparator \<open>(a, b) => b.lastEntry - a.lastEntry\<close>; \<open>sort\<close> reads a \<open>NaN\<close> result
  as 0. \<open>Array.prototype.sort\<close> is stable; it is modelled as the stable insertion sort,
  which is the sorted order of every stable sort when the comparator is consistent, and
  the order of \<open>sort\<close> on every array of one or two elements. A timestamp that does not
  parse gives the key \<open>NaN\<close>; the comparator is then not consistent, and with three or
  more candidates the order that \<open>sort\<close> leaves depends on the comparisons it makes,
  which \<open>sortBy\<close> does not describe.
\<close>

definition byLastEntry :: "string \<times> number \<Rightarrow> string \<times> number \<Rightarrow> int" where
  "byLastEntry a b =
     (case (snd b, snd a) of (Some y, Some x) \<Rightarrow> y - x | _ \<Rightarrow> 0)"

fun insertSorted :: "('a \<Rightarrow> 'a \<Rightarrow> int) \<Rightarrow> 'a \<Rightarrow> 'a list \<Rightarrow> 'a list" where
  "insertSorted cmp x [] = [x]"
| "insertSorted cmp x (y # ys) =
     (if cmp x y \<le> 0 then x # y # ys else y # insertSorted cmp x ys)"

definition sortBy :: "('a \<Rightarrow> 'a \<Rightarrow> int) \<Rightarrow> 'a list \<Rightarrow> 'a list" where
  "sortBy cmp xs = foldr (insertSorted cmp) xs []"

text \<open>
  The branch of \<open>main\<close> without a session id: the \<open>.jsonl\<close> files of the directory with
  their last timestamps, sorted, and the name of the first.
\<close>

definition jsonlFiles :: "env \<Rightarrow> (string \<times> log_file option) list" where
  "jsonlFiles w = filter (\<lambda>p. endsWith (fst p) ''.jsonl'') (sessions w)"

definition candidates :: "env \<Rightarrow> (string \<times> number) list" where
  "candidates w = map (\<lambda>p. (fst p, getLastEntryTimestamp w (snd p))) (jsonlFiles w)"

definition selectSession :: "env \<Rightarrow> error + string" where
  "selectSession w =
     (case sortBy byLastEntry (candidates w) of
        [] \<Rightarrow> Inl NoSessionFiles
      | f # fs \<Rightarrow> Inr (fst f))"

text \<open>
  The last parseable record of a text, as the specification speaks of it, and a prefix
  that ends at a line boundary.
\<close>

definition lastRecord :: "env \<Rightarrow> string \<Rightarrow> entry option" where
  "lastRecord w s =
     (case filter (\<lambda>l. parse_line w l \<noteq> None) (rev (nonBlankLines s)) of
        [] \<Rightarrow> None
      | l # ls \<Rightarrow> parse_line w l)"

definition lineAligned :: "string \<Rightarrow> bool" where
  "lineAligned pre = (pre = [] \<or> last pre = CHR 0x0A)"

section \<open>The Markdown exporter\<close>

text \<open>\<open>s || ""\<close>, and \<open>s || d\<close> for a default \<open>d\<close>.\<close>

definition orElse :: "string option \<Rightarrow> string \<Rightarrow> string" where
  "orElse v d = (case v of None \<Rightarrow> d | Some s \<Rightarrow> if s \<noteq> [] then s else d)"

text \<open>How a template literal prints an integer, and a number that may be \<open>NaN\<close>.\<close>

definition showInt :: "int \<Rightarrow> string" where
  "showInt i = (if i < 0 then ''-'' @ showNat (nat (- i)) else showNat (nat i))"

definition showNumber :: "number \<Rightarrow> string" where
  "showNumber n = (case n of None \<Rightarrow> ''NaN'' | Some i \<Rightarrow> showInt i)"

text \<open>\<open>s.replace("T", " ")\<close>: the first occurrence only.\<close>

fun replaceFirst :: "char \<Rightarrow> char \<Rightarrow> string \<Rightarrow> string" where
  "replaceFirst c d [] = []"
| "replaceFirst c d (x # xs) = (if x = c then d # xs else x # replaceFirst c d xs)"

text \<open>\<open>formatTimestamp\<close>; \<open>toISOString\<close> throws on a date that did not parse.\<close>

definition formatTimestamp :: "env \<Rightarrow> string option \<Rightarrow> error + string" where
  "formatTimestamp w ts =
     (case ts of
        None \<Rightarrow> Inr []
      | Some t \<Rightarrow>
          if t = [] then Inr []
          else (case iso_string w t of
                  None \<Rightarrow> Inl RangeError
                | Some isoText \<Rightarrow>
                    Inr (take 19 (replaceFirst (CHR ''T'') (CHR '' '') isoText) @ '' UTC'')))"

text \<open>\<open>lines.slice(0, maxLines)\<close>: a negative end counts from the end of the array.\<close>

definition sliceTo :: "'a list \<Rightarrow> int \<Rightarrow> 'a list" where
  "sliceTo xs m = (if 0 \<le> m then take (nat m) xs else take (length xs - nat (- m)) xs)"

definition truncateLines :: "string \<Rightarrow> int \<Rightarrow> string" where
  "truncateLines text maxLines =
     (let lines = splitOn (CHR 0x0A) text
      in if int (length lines) \<le> maxLines then text
         else join [CHR 0x0A]
                (sliceTo lines maxLines
                 @ [[CHR 0x0A] @ ''... ('' @ showInt (int (length lines) - maxLines)
                    @ '' more lines truncated, total '' @ showNat (length lines)
                    @ '' lines)'']))"

definition getFileExt :: "string option \<Rightarrow> string" where
  "getFileExt filePath =
     (let piece = last (splitOn (CHR ''.'') (orElse filePath []))
      in if piece \<noteq> [] then piece else ''text'')"

text \<open>\<open>getGitContext\<close> of the Markdown exporter: two commands, or the defaults.\<close>

definition getGitContextMd :: "env \<Rightarrow> git_md" where
  "getGitContextMd w =
     (case (git_branch_out w, git_log_out w) of
        (Some b, Some l) \<Rightarrow> \<lparr>gm_branch = trim b, gm_recentCommits = trim l\<rparr>
      | _ \<Rightarrow> \<lparr>gm_branch = ''unknown'', gm_recentCommits = []\<rparr>)"

subsection \<open>Statistics\<close>

text \<open>
  \<open>collectStats\<close>. \<open>toolBreakdown\<close> is an object used as a dictionary, here an association
  list in insertion order (a tool name that names a property of \<open>Object.prototype\<close> is
  not modelled); the sets of files are lists without repetition, in insertion order.
  \<open>block.type\<close> throws on \<open>null\<close>.
\<close>

definition bump :: "string \<Rightarrow> (string \<times> nat) list \<Rightarrow> (string \<times> nat) list" where
  "bump name tb =
     (case map_of tb name of
        None \<Rightarrow> AList.update name 1 tb
      | Some c \<Rightarrow> AList.update name (c + 1) tb)"

fun statsBlock :: "env \<Rightarrow> result_map \<Rightarrow> block \<Rightarrow> stats \<Rightarrow> error + stats" where
  "statsBlock w toolResultMap Null st = Inl TypeError"
| "statsBlock w toolResultMap (Thinking th) st =
     Inr (st\<lparr>thinkingBlocks := thinkingBlocks st + 1\<rparr>)"
| "statsBlock w toolResultMap (ToolUse n i input) st =
     Inr
     (let name = orElse n ''Unknown'';
          st1 = st\<lparr>toolCalls := toolCalls st + 1, toolBreakdown := bump name (toolBreakdown st)\<rparr>;
          st2 = (if resultIsError (toolResultMap (idKey i))
                 then st1\<lparr>toolErrors := toolErrors st1 + 1\<rparr> else st1);
          st3 = (if name = ''Read'' \<and> truthy (in_file_path input)
                 then st2\<lparr>st_filesRead := setAdd (st_filesRead st2) (shortPath w (in_file_path input))\<rparr>
                 else st2);
          st4 = (if name = ''Write'' \<and> truthy (in_file_path input)
                 then st3\<lparr>st_filesWritten :=
                        setAdd (st_filesWritten st3) (shortPath w (in_file_path input))\<rparr>
                 else st3);
          st5 = (if name = ''Edit'' \<and> truthy (in_file_path input)
                 then st4\<lparr>st_filesEdited :=
                        setAdd (st_filesEdited st4) (shortPath w (in_file_path input))\<rparr>
                 else st4);
          st6 = (if name = ''Bash'' then st5\<lparr>bashCommands := bashCommands st5 + 1\<rparr> else st5)
      in if name = ''Grep'' \<or> name = ''Glob'' then st6\<lparr>st_searches := st_searches st6 + 1\<rparr>
         else st6)"
| "statsBlock w toolResultMap b st = Inr st"

definition statsEntry :: "env \<Rightarrow> result_map \<Rightarrow> entry \<Rightarrow> stats \<Rightarrow> error + stats" where
  "statsEntry w toolResultMap e st =
     (let st1 = (case timestamp e of
                   None \<Rightarrow> st
                 | Some ts \<Rightarrow>
                     if ts = [] then st
                     else st\<lparr>duration_start :=
                              (if truthy (duration_start st) then duration_start st else Some ts),
                            duration_end := Some ts\<rparr>)
      in if etype e = ''user'' then
           (case contentArray e of
              None \<Rightarrow> Inr st1
            | Some bs \<Rightarrow>
                (case someBlock isToolResultBlock bs of
                   Inl err \<Rightarrow> Inl err
                 | Inr hasToolResult \<Rightarrow>
                     Inr (if hasToolResult then st1 else st1\<lparr>userTurns := userTurns st1 + 1\<rparr>)))
         else if etype e = ''assistant'' then
           (case contentArray e of
              None \<Rightarrow> Inr st1
            | Some bs \<Rightarrow>
                (case someBlock isTextBlock bs of
                   Inl err \<Rightarrow> Inl err
                 | Inr hasText \<Rightarrow>
                     foldE (statsBlock w toolResultMap) bs
                       (if hasText
                        then st1\<lparr>assistantMessages := assistantMessages st1 + 1\<rparr> else st1)))
         else Inr st1)"

definition initStats :: stats where
  "initStats =
     \<lparr>userTurns = 0, assistantMessages = 0, toolCalls = 0, toolErrors = 0, thinkingBlocks = 0,
      toolBreakdown = [], st_filesRead = [], st_filesWritten = [], st_filesEdited = [],
      bashCommands = 0, st_searches = 0, duration_start = None, duration_end = None\<rparr>"

definition collectStats :: "env \<Rightarrow> entry list \<Rightarrow> result_map \<Rightarrow> error + stats" where
  "collectStats w entries toolResultMap = foldE (statsEntry w toolResultMap) entries initStats"

subsection \<open>One tool call with its result\<close>

text \<open>
  \<open>formatToolCall\<close> pushes lines onto \<open>parts\<close> and joins them: the heading, the lines of
  the tool (\<open>toolBody\<close>), and the lines of the result (\<open>resultPart\<close>). \<open>whenTruthy\<close>,
  \<open>whenNumber\<close> and \<open>whenDefined\<close> are the tests \<open>if (x)\<close> on a string, on a number, and
  \<open>if (x !== undefined)\<close>.
\<close>

definition whenTruthy :: "string option \<Rightarrow> (string \<Rightarrow> string list) \<Rightarrow> string list" where
  "whenTruthy v f = (case v of None \<Rightarrow> [] | Some s \<Rightarrow> if s \<noteq> [] then f s else [])"

definition whenNumber :: "nat option \<Rightarrow> (nat \<Rightarrow> string list) \<Rightarrow> string list" where
  "whenNumber v f = (case v of None \<Rightarrow> [] | Some n \<Rightarrow> if n \<noteq> 0 then f n else [])"

definition whenDefined :: "string option \<Rightarrow> (string \<Rightarrow> string list) \<Rightarrow> string list" where
  "whenDefined v f = (case v of None \<Rightarrow> [] | Some s \<Rightarrow> f s)"

definition todoLine :: "todo \<Rightarrow> string" where
  "todoLine t =
     ''- '' @ (if t_status t = ''completed'' then ''[x]''
               else if t_status t = ''in_progress'' then ''[~]'' else ''[ ]'')
     @ '' '' @ t_content t"

definition questionLines :: "question \<Rightarrow> string list" where
  "questionLines q =
     (''**Q:** '' @ q_question q)
     # (case q_options q of
          None \<Rightarrow> []
        | Some items \<Rightarrow> map (\<lambda>item. ''  - '' @ o_label item @ '': '' @ orElse (o_description item) []) items)"

definition fileLine :: "env \<Rightarrow> string option \<Rightarrow> string" where
  "fileLine w fp = ''**File:** `'' @ shortPath w fp @ ''`''"

definition toolBody :: "env \<Rightarrow> string \<Rightarrow> tool_input \<Rightarrow> string list" where
  "toolBody w toolName input =
     (if toolName = ''Bash'' then
        whenTruthy (in_description input) (\<lambda>d. [''> '' @ d])
        @ [''**Command:**'', ''```bash'', orElse (in_command input) [], ''```'']
      else if toolName = ''Read'' then
        [fileLine w (in_file_path input)]
        @ whenNumber (in_offset input) (\<lambda>n. [''**Offset:** line '' @ showNat n])
        @ whenNumber (in_limit input) (\<lambda>n. [''**Limit:** '' @ showNat n @ '' lines''])
      else if toolName = ''Write'' then
        [fileLine w (in_file_path input)]
        @ whenTruthy (in_content input)
            (\<lambda>c. [''**Content written:**'', ''```'' @ getFileExt (in_file_path input),
                  truncateLines c 300, ''```''])
      else if toolName = ''Edit'' then
        [fileLine w (in_file_path input)]
        @ (if in_replace_all input then [''**Mode:** replace_all''] else [])
        @ whenDefined (in_old_string input) (\<lambda>s. [''**Old:**'', ''```'', s, ''```''])
        @ whenDefined (in_new_string input) (\<lambda>s. [''**New:**'', ''```'', s, ''```''])
      else if toolName = ''Grep'' then
        [''**Pattern:** `'' @ orElse (in_pattern input) [] @ ''`'']
        @ whenTruthy (in_path input) (\<lambda>p. [''**Path:** `'' @ shortPath w (Some p) @ ''`''])
        @ whenTruthy (in_glob input) (\<lambda>g. [''**Glob:** `'' @ g @ ''`''])
        @ whenTruthy (in_output_mode input) (\<lambda>m. [''**Mode:** '' @ m])
      else if toolName = ''Glob'' then
        [''**Pattern:** `'' @ orElse (in_pattern input) [] @ ''`'']
        @ whenTruthy (in_path input) (\<lambda>p. [''**Path:** `'' @ shortPath w (Some p) @ ''`''])
      else if toolName = ''Task'' then
        [''**Agent:** '' @ orElse (in_subagent_type input) ''?'']
        @ whenTruthy (in_description input) (\<lambda>d. [''**Description:** '' @ d])
        @ whenTruthy (in_model input) (\<lambda>m. [''**Model:** '' @ m])
        @ [''**Prompt:**'', ''```'', truncateChars (orElse (in_prompt input) []) 3000, ''```'']
      else if toolName = ''WebSearch'' then
        [''**Query:** `'' @ orElse (in_query input) [] @ ''`'']
      else if toolName = ''WebFetch'' then
        [''**URL:** '' @ orElse (in_url input) []]
        @ whenTruthy (in_prompt input) (\<lambda>p. [''**Prompt:** '' @ p])
      else if toolName = ''TodoWrite'' then
        ''**Tasks:**''
        # map todoLine (case in_todos input of None \<Rightarrow> [] | Some ts \<Rightarrow> ts)
      else if toolName = ''NotebookEdit'' then
        [''**Notebook:** `'' @ shortPath w (in_notebook_path input) @ ''`'']
        @ whenTruthy (in_cell_type input) (\<lambda>c. [''**Cell type:** '' @ c])
        @ whenTruthy (in_edit_mode input) (\<lambda>m. [''**Edit mode:** '' @ m])
        @ whenTruthy (in_new_source input)
            (\<lambda>src. [''**Source:**'', ''```'', truncateLines src 100, ''```''])
      else if toolName = ''AskUserQuestion'' then
        concat (map questionLines (case in_questions input of None \<Rightarrow> [] | Some qs \<Rightarrow> qs))
      else
        [''**Input:**'', ''```json'', truncateChars (in_json_pretty input) 2000, ''```''])"

definition resultPart :: "env \<Rightarrow> string \<Rightarrow> tool_input \<Rightarrow> tool_result option \<Rightarrow> opts \<Rightarrow> string list" where
  "resultPart w toolName input result os =
     (case result of
        None \<Rightarrow> []
      | Some r \<Rightarrow>
          if \<not> includeResults os then []
          else if r_is_error r then
            ['''', ''**Result: ERROR**'', ''```'',
             truncateLines (orElse (r_content r) ''(empty)'') (maxResultLines os), ''```'']
          else
            (let resultContent = orElse (r_content r) []
             in if trim resultContent \<noteq> [] then
                  (let ext = (if toolName = ''Read'' \<and> truthy (in_file_path input)
                              then getFileExt (in_file_path input) else [])
                   in ['''', ''**Result:**'',
                       (if file_content_match w resultContent \<and> ext \<noteq> [] then ''```'' @ ext
                        else ''```''),
                       truncateLines resultContent (maxResultLines os), ''```''])
                else ['''']))"

definition formatToolCall :: "env \<Rightarrow> string option \<Rightarrow> string option \<Rightarrow> tool_input \<Rightarrow> result_map \<Rightarrow> opts \<Rightarrow> string" where
  "formatToolCall w n i input toolResultMap os =
     (let toolName = orElse n ''Unknown'';
          result = toolResultMap (idKey i)
      in join [CHR 0x0A]
           ([(if resultIsError result then ''### [ERROR] Tool: '' else ''### Tool: '') @ toolName,
             '''']
            @ toolBody w toolName input
            @ resultPart w toolName input result os))"

subsection \<open>The document\<close>

text \<open>
  \<open>convertToMarkdown\<close>: the header, the loop over the entries (\<open>mdEntry\<close> is its body,
  with the lines pushed so far and \<open>turnCount\<close> as state), and the footer, which prints
  the time of the export. \<open>formatTimestamp\<close> may throw, and so do \<open>block.type\<close> on
  \<open>null\<close> and, in a user record, \<open>stripSystemTags(block.text)\<close> on a text that is absent;
  each ends the conversion. In an assistant record an absent text is pushed as it is,
  and \<open>join\<close> prints it as the empty string.
\<close>

definition timeLine :: "string \<Rightarrow> string list" where
  "timeLine time = (if time \<noteq> [] then [''*'' @ time @ ''*''] else [])"

fun userBlockMd :: "block \<Rightarrow> string list \<Rightarrow> error + string list" where
  "userBlockMd Null ps = Inl TypeError"
| "userBlockMd (Text None) ps = Inl TypeError"
| "userBlockMd (Text (Some t)) ps =
     (let cleaned = stripSystemTags t
      in Inr (if cleaned \<noteq> [] then ps @ [cleaned, ''''] else ps))"
| "userBlockMd Image ps = Inr (ps @ [''*[Image attached]*'', ''''])"
| "userBlockMd b ps = Inr ps"

definition assistantHeader :: "string \<Rightarrow> bool \<Rightarrow> string list" where
  "assistantHeader time hasContent =
     (if hasContent then [] else [''### Assistant''] @ timeLine time @ [''''])"

fun assistantBlockMd :: "env \<Rightarrow> result_map \<Rightarrow> opts \<Rightarrow> string \<Rightarrow> block \<Rightarrow> string list \<times> bool \<Rightarrow> error + string list \<times> bool" where
  "assistantBlockMd w m os time Null (ps, hasContent) = Inl TypeError"
| "assistantBlockMd w m os time (Thinking th) (ps, hasContent) =
     Inr
     (if includeThinking os then
        (ps @ assistantHeader time hasContent
         @ (if trim th \<noteq> [] then
              [''<details>'', ''<summary>Thinking / Internal Reasoning</summary>'', '''',
               truncateChars th 2000, '''', ''</details>'', '''']
            else []),
         True)
      else (ps, hasContent))"
| "assistantBlockMd w m os time (Text t) (ps, hasContent) =
     Inr (ps @ assistantHeader time hasContent
          @ [case t of None \<Rightarrow> [] | Some tx \<Rightarrow> tx, ''''], True)"
| "assistantBlockMd w m os time (ToolUse n i input) (ps, hasContent) =
     Inr (ps @ assistantHeader time hasContent @ [formatToolCall w n i input m os, ''''], True)"
| "assistantBlockMd w m os time b (ps, hasContent) = Inr (ps, hasContent)"

definition mdEntry :: "env \<Rightarrow> result_map \<Rightarrow> opts \<Rightarrow> entry \<Rightarrow> md_state \<Rightarrow> error + md_state" where
  "mdEntry w m os e st =
     (if etype e \<noteq> ''user'' \<and> etype e \<noteq> ''assistant'' then Inr st
      else case contentArray e of
             None \<Rightarrow> Inr st
           | Some bs \<Rightarrow>
               (case formatTimestamp w (timestamp e) of
                  Inl err \<Rightarrow> Inl err
                | Inr time \<Rightarrow>
                    if roleOf e = ''user'' then
                      (case someBlock isToolResultBlock bs of
                         Inl err \<Rightarrow> Inl err
                       | Inr True \<Rightarrow> Inr st
                       | Inr False \<Rightarrow>
                           (case foldE userBlockMd bs
                                   (parts st
                                    @ [''### User (Turn '' @ showNat (turnCount st + 1) @ '')'']
                                    @ timeLine time @ ['''']) of
                              Inl err \<Rightarrow> Inl err
                            | Inr ps \<Rightarrow>
                                Inr \<lparr>parts = ps @ [''---'', ''''],
                                     turnCount = turnCount st + 1\<rparr>))
                    else if roleOf e = ''assistant'' then
                      (case foldE (assistantBlockMd w m os time) bs (parts st, False) of
                         Inl err \<Rightarrow> Inl err
                       | Inr r \<Rightarrow>
                           Inr (st\<lparr>parts := fst r @ (if snd r then [''---'', ''''] else [])\<rparr>))
                    else Inr st))"

definition byCount :: "string \<times> nat \<Rightarrow> string \<times> nat \<Rightarrow> int" where
  "byCount a b = int (snd b) - int (snd a)"

definition durationLine :: "env \<Rightarrow> stats \<Rightarrow> string list" where
  "durationLine w st =
     (case (duration_start st, duration_end st) of
        (Some s, Some e) \<Rightarrow>
          if s \<noteq> [] \<and> e \<noteq> [] then
            [''| Duration | ~''
             @ showNumber (case (date_ms w e, date_ms w s) of
                             (Some te, Some ts) \<Rightarrow> Some ((te - ts + 30000) div 60000)
                           | _ \<Rightarrow> None)
             @ '' min |'']
          else []
      | _ \<Rightarrow> [])"

definition summaryLines :: "stats \<Rightarrow> git_md \<Rightarrow> string list" where
  "summaryLines st git =
     [''## Session Summary'', '''',
      ''- **'' @ showNat (userTurns st) @ ''** user turns, **'' @ showNat (assistantMessages st)
        @ ''** assistant responses'',
      ''- **'' @ showNat (toolCalls st) @ ''** tool calls ('' @ showNat (toolErrors st)
        @ '' errors)'']
     @ (if thinkingBlocks st > 0
        then [''- **'' @ showNat (thinkingBlocks st) @ ''** thinking/reasoning blocks''] else [])
     @ ['''']
     @ (if toolBreakdown st \<noteq> [] then
          [''**Tool usage breakdown:**'']
          @ map (\<lambda>p. ''- '' @ fst p @ '': '' @ showNat (snd p) @ ''x'')
              (sortBy byCount (toolBreakdown st))
          @ ['''']
        else [])
     @ (let allFilesWritten = fold (\<lambda>f fs. setAdd fs f) (st_filesWritten st @ st_filesEdited st) []
        in if st_filesRead st \<noteq> [] \<or> allFilesWritten \<noteq> [] then
             [''**Files touched:**'']
             @ (if allFilesWritten \<noteq> [] then
                  (''- Modified/Created ('' @ showNat (length allFilesWritten) @ ''):'')
                  # map (\<lambda>f. ''  - `'' @ f @ ''`'') allFilesWritten
                else [])
             @ (if st_filesRead st \<noteq> [] then
                  (''- Read ('' @ showNat (length (st_filesRead st)) @ ''):'')
                  # map (\<lambda>f. ''  - `'' @ f @ ''`'') (st_filesRead st)
                else [])
             @ ['''']
           else [])
     @ (if gm_recentCommits git \<noteq> [] then
          [''**Recent commits (context):**'', ''```'', gm_recentCommits git, ''```'', '''']
        else [])"

definition headerLines :: "env \<Rightarrow> stats \<Rightarrow> git_md \<Rightarrow> string \<Rightarrow> string \<Rightarrow> string \<Rightarrow> string list" where
  "headerLines w st git sessionId startText endText =
     [''# Claude Code Conversation Export'', '''',
      ''> **Purpose:** This export is structured for AI agents to read, review progress,'',
      ''> identify issues, and recommend next steps. Includes full tool inputs/outputs.'',
      '''', ''## Metadata'', '''', ''| Field | Value |'', ''|-------|-------|'',
      ''| Session ID | `'' @ sessionId @ ''` |'',
      ''| Project | '' @ PROJECT_NAME w @ '' |'',
      ''| Branch | `'' @ gm_branch git @ ''` |'',
      ''| Start | '' @ startText @ '' |'',
      ''| End | '' @ endText @ '' |'']
     @ durationLine w st
     @ ['''']
     @ summaryLines st git
     @ [''---'', '''', ''## Conversation'', '''']"

definition footerLines :: "string \<Rightarrow> string list" where
  "footerLines exported =
     ['''', ''---'', ''*Exported at '' @ exported @ ''*'',
      ''*Export version: 2.0 (AI-optimized with tool results)*'',
      ''*Tool: claude-export (https://github.com/stephenpham68/claude-export)*'']"

definition conversation :: "env \<Rightarrow> result_map \<Rightarrow> opts \<Rightarrow> entry list \<Rightarrow> string list \<Rightarrow> error + md_state" where
  "conversation w m os entries ps = foldE (mdEntry w m os) entries \<lparr>parts = ps, turnCount = 0\<rparr>"

definition convertToMarkdown :: "env \<Rightarrow> entry list \<Rightarrow> string \<Rightarrow> opts \<Rightarrow> error + string" where
  "convertToMarkdown w entries sessionId os =
     (case buildToolResultMap entries of
        Inl err \<Rightarrow> Inl err
      | Inr toolResultMap \<Rightarrow>
          (case collectStats w entries toolResultMap of
             Inl err \<Rightarrow> Inl err
           | Inr st \<Rightarrow>
               (let git = getGitContextMd w
                in case formatTimestamp w (duration_start st) of
                     Inl err \<Rightarrow> Inl err
                   | Inr startText \<Rightarrow>
                       (case formatTimestamp w (duration_end st) of
                          Inl err \<Rightarrow> Inl err
                        | Inr endText \<Rightarrow>
                            (case conversation w toolResultMap os entries
                                    (headerLines w st git sessionId startText endText) of
                               Inl err \<Rightarrow> Inl err
                             | Inr final \<Rightarrow>
                                 (case formatTimestamp w (Some (clock w)) of
                                    Inl err \<Rightarrow> Inl err
                                  | Inr exported \<Rightarrow>
                                      Inr (join [CHR 0x0A]
                                             (parts final @ footerLines exported))))))))"

section \<open>The main loop, as the specification reads it\<close>

text \<open>
  The invocations of a log are the \<open>tool_use\<close> blocks of its assistant records, in file
  order; \<open>blockActions\<close> is what one of them adds to the list of actions, and
  \<open>commandText\<close> is the trimmed command of a shell invocation. \<open>entryUserMessages\<close> is
  what one record adds to the user messages. A text is plain when it is not empty, holds
  no \<open><\<close> and neither starts nor ends with white space.
\<close>

fun isToolUse :: "block \<Rightarrow> bool" where
  "isToolUse (ToolUse name i input) = True"
| "isToolUse b = False"

definition entryToolUses :: "entry \<Rightarrow> block list" where
  "entryToolUses e =
     (case contentArray e of
        None \<Rightarrow> []
      | Some bs \<Rightarrow> if isAssistant e then filter isToolUse bs else [])"

definition toolUses :: "entry list \<Rightarrow> block list" where
  "toolUses entries = concat (map entryToolUses entries)"

fun blockActions :: "result_map \<Rightarrow> block \<Rightarrow> action_entry list" where
  "blockActions m (ToolUse name i input) =
     bashAction name input (m (idKey i)) @ taskAction name input (m (idKey i))"
| "blockActions m b = []"

definition commandText :: "tool_input \<Rightarrow> string" where
  "commandText input = trim (case in_command input of None \<Rightarrow> [] | Some c \<Rightarrow> c)"

definition entryUserMessages :: "entry \<Rightarrow> string list" where
  "entryUserMessages e =
     (case contentArray e of
        None \<Rightarrow> []
      | Some bs \<Rightarrow> if isUser e \<and> \<not> isToolResult bs then concat (map userMessageOf bs) else [])"

definition plainText :: "string \<Rightarrow> bool" where
  "plainText t = (t \<noteq> [] \<and> CHR ''<'' \<notin> set t \<and> \<not> isWhite (hd t) \<and> \<not> isWhite (last t))"

text \<open>
  \<open>fileStep\<close> is what one block does to \<open>fileChanges\<close>. An invocation writes to a short
  path when it is a \<open>Write\<close> with a file path of that short path, and likewise edits at
  it; \<open>changesFor\<close> are the change entries of a projection for one short path. A short
  path is modified, or created, in \<open>fileChanges\<close> according to the action recorded for it.
\<close>

definition fileStep :: "env \<Rightarrow> block \<Rightarrow> (string \<times> change_info) list \<Rightarrow> (string \<times> change_info) list" where
  "fileStep w b fc = fileChanges (toolStep w Map.empty b (initAcc\<lparr>fileChanges := fc\<rparr>))"

fun writesTo :: "env \<Rightarrow> string \<Rightarrow> block \<Rightarrow> bool" where
  "writesTo w sp (ToolUse name i input) =
     (name = Some ''Write'' \<and> truthy (in_file_path input)
      \<and> shortPath w (in_file_path input) = sp)"
| "writesTo w sp b = False"

fun editsAt :: "env \<Rightarrow> string \<Rightarrow> block \<Rightarrow> bool" where
  "editsAt w sp (ToolUse name i input) =
     (name = Some ''Edit'' \<and> truthy (in_file_path input)
      \<and> shortPath w (in_file_path input) = sp)"
| "editsAt w sp b = False"

definition changesFor :: "string \<Rightarrow> handoff \<Rightarrow> change list" where
  "changesFor sp h = filter (\<lambda>c. c_file c = sp) (h_changes h)"

definition isModified :: "(string \<times> change_info) list \<Rightarrow> string \<Rightarrow> bool" where
  "isModified fc sp = (\<exists>info. map_of fc sp = Some info \<and> ci_action info = ''modified'')"

definition isCreated :: "(string \<times> change_info) list \<Rightarrow> string \<Rightarrow> bool" where
  "isCreated fc sp =
     (\<exists>info. map_of fc sp = Some info \<and> ci_action info = ''created'' \<and> ci_edits info = None)"

definition actionsOf :: "handoff \<Rightarrow> action_entry list" where
  "actionsOf h = (case h_actions h of None \<Rightarrow> [] | Some as \<Rightarrow> as)"

text \<open>
  The names that every JavaScript object inherits from \<open>Object.prototype\<close>, the short
  path that a \<open>Write\<close> or an \<open>Edit\<close> with a file path changes, and the logs where no
  such short path is one of those names. On these logs \<open>fileChanges[sp]\<close> finds what
  was assigned to \<open>sp\<close> and nothing else, as the association list does.
\<close>

definition prototypeKeys :: "string list" where
  "prototypeKeys =
     [''__proto__'', ''constructor'', ''hasOwnProperty'', ''isPrototypeOf'',
      ''propertyIsEnumerable'', ''toLocaleString'', ''toString'', ''valueOf'',
      ''__defineGetter__'', ''__defineSetter__'', ''__lookupGetter__'', ''__lookupSetter__'']"

fun changedPath :: "env \<Rightarrow> block \<Rightarrow> string list" where
  "changedPath w (ToolUse name i input) =
     (if (name = Some ''Write'' \<or> name = Some ''Edit'') \<and> truthy (in_file_path input)
      then [shortPath w (in_file_path input)] else [])"
| "changedPath w b = []"

definition ownKeyPaths :: "env \<Rightarrow> entry list \<Rightarrow> bool" where
  "ownKeyPaths w entries =
     list_all (\<lambda>sp. sp \<notin> set prototypeKeys) (concat (map (changedPath w) (toolUses entries)))"

section \<open>The environment, as the formatters read it\<close>

text \<open>
  Two environments agree for the compact exporter, or for the Markdown exporter, when
  they give the same values to what that exporter reads.
\<close>

definition agreeCompact :: "env \<Rightarrow> env \<Rightarrow> bool" where
  "agreeCompact w1 w2 =
     (PROJECT_ROOT w1 = PROJECT_ROOT w2 \<and> PROJECT_NAME w1 = PROJECT_NAME w2 \<and>
      git_branch_out w1 = git_branch_out w2 \<and> git_log_out w1 = git_log_out w2 \<and>
      git_status_out w1 = git_status_out w2 \<and> date_ms w1 = date_ms w2)"

definition agreeMarkdown :: "env \<Rightarrow> env \<Rightarrow> bool" where
  "agreeMarkdown w1 w2 =
     (PROJECT_ROOT w1 = PROJECT_ROOT w2 \<and> PROJECT_NAME w1 = PROJECT_NAME w2 \<and>
      git_branch_out w1 = git_branch_out w2 \<and> git_log_out w1 = git_log_out w2 \<and>
      date_ms w1 = date_ms w2 \<and> iso_string w1 = iso_string w2 \<and>
      file_content_match w1 = file_content_match w2 \<and> clock w1 = clock w2)"


section \<open>Example logs\<close>

definition userEntry :: "block list \<Rightarrow> entry" where
  "userEntry bs =
     \<lparr>etype = ''user'', timestamp = None,
      message = Some \<lparr>role = ''user'', content = Blocks bs\<rparr>\<rparr>"

definition assistantEntry :: "block list \<Rightarrow> entry" where
  "assistantEntry bs =
     \<lparr>etype = ''assistant'', timestamp = None,
      message = Some \<lparr>role = ''assistant'', content = Blocks bs\<rparr>\<rparr>"

text \<open>Two outcomes with the same correlation id, in two records.\<close>

definition dupLog :: "entry list" where
  "dupLog =
     [userEntry [ToolResult (Some ''t1'') (ResString ''first'') False],
      userEntry [ToolResult (Some ''t1'') (ResString ''second'') True]]"

definition env0 :: env where
  "env0 =
     \<lparr>PROJECT_ROOT = ''/work/app'', PROJECT_NAME = ''app'',
      git_branch_out = Some ''main'', git_log_out = Some [], git_status_out = Some [],
      clock = ''2025-01-01T00:00:00.000Z'', sessions = [],
      date_ms = (\<lambda>s. None), iso_string = (\<lambda>s. Some s), file_content_match = (\<lambda>s. False),
      parse_line = (\<lambda>l. None)\<rparr>"

text \<open>
  A user record, the record of a tool result, and the answer of the assistant; a user
  record that holds only an image; an assistant record before the first user record.
\<close>

definition exchangeLog :: "entry list" where
  "exchangeLog =
     [userEntry [Text (Some ''fix it'')],
      userEntry [ToolResult (Some ''t1'') (ResString ''ok'') False],
      assistantEntry [Text (Some ''done'')]]"


text \<open>
  Two outcomes with the same correlation id after a \<open>null\<close>, in one record; an assistant
  record whose text is two line feeds, before the first user record.
\<close>

definition nullLog :: "entry list" where
  "nullLog =
     [userEntry [Null, ToolResult (Some ''t1'') (ResString ''first'') False,
                 ToolResult (Some ''t1'') (ResString ''second'') True]]"

definition blankLog :: "entry list" where
  "blankLog =
     [assistantEntry [Text (Some [CHR 0x0A, CHR 0x0A])], userEntry [Text (Some ''go'')]]"

definition greetingLog :: "entry list" where
  "greetingLog = [assistantEntry [Text (Some ''hi'')], userEntry [Text (Some ''go'')]]"

text \<open>A text of 501 characters; three shell invocations in one assistant record.\<close>

definition longText :: string where
  "longText = replicate 501 (CHR ''a'')"

definition emptyInput :: tool_input where
  "emptyInput =
     \<lparr>in_command = None, in_file_path = None, in_content = None, in_old_string = None,
      in_new_string = None, in_replace_all = False, in_description = None,
      in_pattern = None, in_path = None, in_glob = None, in_todos = None, in_prompt = None,
      in_subagent_type = None, in_offset = None, in_limit = None, in_output_mode = None,
      in_model = None, in_query = None, in_url = None, in_notebook_path = None,
      in_cell_type = None, in_edit_mode = None, in_new_source = None, in_questions = None,
      in_json = ''{}'', in_json_pretty = ''{}''\<rparr>"

definition bash :: "string \<Rightarrow> block" where
  "bash c = ToolUse (Some ''Bash'') None (emptyInput\<lparr>in_command := Some c\<rparr>)"

definition bashLog :: "entry list" where
  "bashLog = [assistantEntry [bash ''npm test'', bash ''ls'', bash ''echo starting now'']]"

text \<open>Invocations that write and edit one file, in three orders.\<close>

definition writeOf :: "string \<Rightarrow> string \<Rightarrow> block" where
  "writeOf p c =
     ToolUse (Some ''Write'') None (emptyInput\<lparr>in_file_path := Some p, in_content := Some c\<rparr>)"

definition editOf :: "string \<Rightarrow> string \<Rightarrow> string \<Rightarrow> block" where
  "editOf p old new =
     ToolUse (Some ''Edit'') None
       (emptyInput\<lparr>in_file_path := Some p, in_old_string := Some old, in_new_string := Some new\<rparr>)"

definition writeEditLog :: "entry list" where
  "writeEditLog = [assistantEntry [writeOf ''/work/app/a.txt'' ''x'', editOf ''/work/app/a.txt'' ''x'' ''y'']]"

definition editWriteLog :: "entry list" where
  "editWriteLog = [assistantEntry [editOf ''/work/app/a.txt'' ''x'' ''y'', writeOf ''/work/app/a.txt'' ''x'']]"

definition writeEditWriteLog :: "entry list" where
  "writeEditWriteLog =
     [assistantEntry [writeOf ''/work/app/a.txt'' ''x'', editOf ''/work/app/a.txt'' ''x'' ''y'',
        writeOf ''/work/app/a.txt'' ''z'']]"

text \<open>
  Session files: the last record of A is of the first of January 2025, in a short line
  or in a line longer than 16384 bytes; the last record of B is one day newer and is
  followed by a line cut short; A was modified after B. \<open>parseC\<close> and \<open>dateC\<close> are
  \<open>JSON.parse\<close> and the date conversion on the lines and timestamps of these files.
\<close>

definition tsA :: string where
  "tsA = ''2025-01-01T00:00:00.000Z''"

definition tsB :: string where
  "tsB = ''2025-01-02T00:00:00.000Z''"

definition recA :: entry where
  "recA = \<lparr>etype = ''user'', timestamp = Some tsA, message = None\<rparr>"

definition recB :: entry where
  "recB = \<lparr>etype = ''user'', timestamp = Some tsB, message = None\<rparr>"

definition shortLineA :: string where
  \<open>shortLineA = ''{"type":"user","timestamp":"2025-01-01T00:00:00.000Z"}''\<close>

definition longLineA :: string where
  \<open>longLineA = ''{"type":"user","timestamp":"2025-01-01T00:00:00.000Z","pad":"''
     @ replicate 16384 (CHR ''x'') @ ''"}''\<close>

definition lineB :: string where
  \<open>lineB = ''{"type":"user","timestamp":"2025-01-02T00:00:00.000Z"}''\<close>

definition parseC :: "string \<Rightarrow> entry option" where
  "parseC l =
     (if l = shortLineA \<or> l = longLineA then Some recA
      else if l = lineB then Some recB
      else None)"

definition dateC :: "string \<Rightarrow> int option" where
  "dateC s =
     (if s = tsA then Some 1735689600000
      else if s = tsB then Some 1735776000000
      else None)"

definition dirEnv :: "(string \<times> log_file option) list \<Rightarrow> env" where
  "dirEnv dir = env0\<lparr>sessions := dir, date_ms := dateC, parse_line := parseC\<rparr>"

definition shortFileA :: log_file where
  "shortFileA = \<lparr>bytes = shortLineA @ [CHR 0x0A], mtime = 1735862400000\<rparr>"

definition longFileA :: log_file where
  "longFileA = \<lparr>bytes = longLineA, mtime = 1735862400000\<rparr>"

definition junk :: string where
  \<open>junk = ''{"type":"assis''\<close>

definition fileB :: log_file where
  "fileB = \<lparr>bytes = lineB @ CHR 0x0A # junk, mtime = 1735776000001\<rparr>"

text \<open>A directory that holds, besides A and B, a file and a folder that are no session logs.\<close>

definition mixedDir :: "(string \<times> log_file option) list" where
  "mixedDir =
     [(''notes.txt'', Some \<lparr>bytes = lineB, mtime = 1735948800000\<rparr>),
      (''a.jsonl'', Some shortFileA), (''memory'', None), (''b.jsonl'', Some fileB)]"

definition opts0 :: opts where
  "opts0 = \<lparr>includeThinking = True, includeResults = True, maxResultLines = 150\<rparr>"

text \<open>
  Environments that differ from \<open>env0\<close> in the clock, in the branch, and in what no
  formatter reads.
\<close>

definition envLater :: env where
  "envLater = env0\<lparr>clock := ''2025-01-01T00:00:01.000Z''\<rparr>"

definition envDev :: env where
  "envDev = env0\<lparr>git_branch_out := Some ''dev''\<rparr>"

definition envOther :: env where
  "envOther = env0\<lparr>sessions := [(''x.jsonl'', None)], parse_line := (\<lambda>l. Some (userEntry []))\<rparr>"

section \<open>Properties of truncation\<close>

lemma truncateChars_fixed:
  "length s \<le> m \<Longrightarrow> truncateChars (truncateChars s m) m = truncateChars s m"
  by (simp add: truncateChars_def)

text \<open>
  Claim C4, as amended: \<open>truncate\<close>, the truncation of the compact exporter, is idempotent
  for every text (present or absent) and every budget: truncating its result again at the
  same budget changes nothing.
\<close>

theorem truncate_idempotent:
  "truncate (Some (truncate s m)) m = truncate s m"
proof (cases s)
  case None
  then show ?thesis by (simp add: truncate_def)
next
  case (Some t)
  show ?thesis
  proof (cases "t = [] \<or> int (length t) \<le> m")
    case True
    with Some show ?thesis by (auto simp: truncate_def)
  next
    case False
    then have "0 < length t" and "\<not> int (length t) \<le> m" by simp_all
    then have long: "nat m < length t" by linarith
    have "\<not> int (length (take (nat m) t @ ''...'')) \<le> m"
      using long by auto
    with Some False long show ?thesis
      by (simp add: truncate_def)
  qed
qed

text \<open>
  Claim C4 as stated fails for \<open>truncateChars\<close>: the marker of the second truncation
  reports the length of the already truncated text.
\<close>

theorem truncateChars_not_idempotent:
  "truncateChars (truncateChars ''abcd'' 1) 1 \<noteq> truncateChars ''abcd'' 1"
  by (simp add: truncateChars_def showNat.simps)

section \<open>Properties of loops that may throw\<close>

lemma foldE_Cons_Inr:
  "foldE f (x # xs) s = Inr s' \<longleftrightarrow> (\<exists>s1. f x s = Inr s1 \<and> foldE f xs s1 = Inr s')"
  by (simp split: sum.splits)

lemma foldE_fold:
  assumes "\<And>x s. x \<in> set xs \<Longrightarrow> f x s = Inr (g x s)"
  shows "foldE f xs s = Inr (fold g xs s)"
  using assms by (induction xs arbitrary: s) simp_all

lemma foldE_Inr_fold:
  assumes "foldE f xs s = Inr s'"
    and "\<And>x s s1. x \<in> set xs \<Longrightarrow> f x s = Inr s1 \<Longrightarrow> s1 = g x s"
  shows "s' = fold g xs s"
  using assms
proof (induction xs arbitrary: s)
  case Nil
  then show ?case by simp
next
  case (Cons x xs)
  from Cons.prems(1) obtain s1 where 1: "f x s = Inr s1" and 2: "foldE f xs s1 = Inr s'"
    by (auto split: sum.splits)
  have "s1 = g x s"
    using Cons.prems(2) [of x s s1] 1 by simp
  moreover have "s' = fold g xs s1"
    using 2 Cons.prems(2) by (intro Cons.IH) auto
  ultimately show ?case by simp
qed

lemma foldE_throws:
  assumes "x \<in> set xs" and "\<And>s. f x s = Inl err"
    and "\<And>y s e. y \<in> set xs \<Longrightarrow> f y s = Inl e \<Longrightarrow> e = err"
  shows "foldE f xs s = Inl err"
  using assms(1,3)
proof (induction xs arbitrary: s)
  case Nil
  then show ?case by simp
next
  case (Cons y ys)
  show ?case
  proof (cases "f y s")
    case (Inl e)
    then have "e = err" using Cons.prems(2) [of y s e] by simp
    with Inl show ?thesis by simp
  next
    case (Inr s1)
    have "y \<noteq> x" using Inr assms(2) [of s] by auto
    then have "x \<in> set ys" using Cons.prems(1) by simp
    then have "foldE f ys s1 = Inl err"
      using Cons.prems(2) by (intro Cons.IH) auto
    with Inr show ?thesis by simp
  qed
qed

lemma someBlock_Inr: "someBlock p bs = Inr r \<Longrightarrow> r = list_ex p bs"
  by (induction bs) (auto split: if_splits)

lemma someBlock_returns: "Null \<notin> set bs \<Longrightarrow> someBlock p bs = Inr (list_ex p bs)"
  by (induction bs) auto

lemma someBlock_isToolResult:
  "someBlock isToolResultBlock bs = Inr r \<Longrightarrow> r = isToolResult bs"
  by (simp add: isToolResult_def someBlock_Inr)

section \<open>Properties of the correlation map\<close>

lemma lastFor_append:
  "lastFor k (ps @ qs) d = lastFor k qs (lastFor k ps d)"
  by (cases "filter (\<lambda>p. fst p = k) ps"; cases "filter (\<lambda>p. fst p = k) qs")
     (simp_all add: lastFor_def)

lemma addResult_lastFor:
  "addResult b m = Inr m' \<Longrightarrow> m' k = lastFor k (outcomeOf b) (m k)"
  by (cases b) (auto simp: lastFor_def split: option.splits)

lemma foldE_addResult_lastFor:
  "foldE addResult bs m = Inr m' \<Longrightarrow> m' k = lastFor k (concat (map outcomeOf bs)) (m k)"
proof (induction bs arbitrary: m)
  case Nil
  then show ?case by (simp add: lastFor_def)
next
  case (Cons b bs)
  from Cons.prems obtain m1 where 1: "addResult b m = Inr m1"
      and 2: "foldE addResult bs m1 = Inr m'"
    by (auto split: sum.splits)
  have "m' k = lastFor k (concat (map outcomeOf bs)) (m1 k)"
    using 2 by (rule Cons.IH)
  also have "\<dots> = lastFor k (concat (map outcomeOf bs)) (lastFor k (outcomeOf b) (m k))"
    using addResult_lastFor [OF 1] by simp
  also have "\<dots> = lastFor k (concat (map outcomeOf (b # bs))) (m k)"
    by (simp only: lastFor_append list.map concat.simps)
  finally show ?case .
qed

lemma addEntryResults_lastFor:
  "addEntryResults e m = Inr m' \<Longrightarrow> m' k = lastFor k (entryOutcomes e) (m k)"
  by (auto simp: addEntryResults_def entryOutcomes_def foldE_addResult_lastFor lastFor_def
      split: option.splits if_splits)

lemma foldE_addEntryResults_lastFor:
  "foldE addEntryResults es m = Inr m'
   \<Longrightarrow> m' k = lastFor k (concat (map entryOutcomes es)) (m k)"
proof (induction es arbitrary: m)
  case Nil
  then show ?case by (simp add: lastFor_def)
next
  case (Cons e es)
  from Cons.prems obtain m1 where 1: "addEntryResults e m = Inr m1"
      and 2: "foldE addEntryResults es m1 = Inr m'"
    by (auto split: sum.splits)
  have "m' k = lastFor k (concat (map entryOutcomes es)) (m1 k)"
    using 2 by (rule Cons.IH)
  also have "\<dots> = lastFor k (concat (map entryOutcomes es)) (lastFor k (entryOutcomes e) (m k))"
    using addEntryResults_lastFor [OF 1] by simp
  also have "\<dots> = lastFor k (concat (map entryOutcomes (e # es))) (m k)"
    by (simp only: lastFor_append list.map concat.simps)
  finally show ?case .
qed

lemma buildToolResultMap_outcomeMap:
  assumes "buildToolResultMap entries = Inr m"
  shows "m = outcomeMap entries"
proof
  fix k
  show "m k = outcomeMap entries k"
    using foldE_addEntryResults_lastFor [of entries Map.empty m k] assms
    by (simp add: buildToolResultMap_def outcomeMap_def outcomes_def)
qed

lemma addResult_error: "addResult b m = Inl err \<Longrightarrow> err = TypeError \<and> b = Null"
  by (cases b) auto

lemma foldE_addResult_error: "foldE addResult bs m = Inl err \<Longrightarrow> err = TypeError"
proof (induction bs arbitrary: m)
  case Nil
  then show ?case by simp
next
  case (Cons b bs)
  then show ?case
    by (cases "addResult b m") (auto dest: addResult_error)
qed

lemma foldE_addResult_returns:
  assumes "Null \<notin> set bs"
  shows "\<exists>m'. foldE addResult bs m = Inr m'"
  using assms
proof (induction bs arbitrary: m)
  case Nil
  then show ?case by simp
next
  case (Cons b bs)
  then have "b \<noteq> Null" by auto
  then obtain m1 where "addResult b m = Inr m1"
    by (cases b) auto
  moreover obtain m' where "foldE addResult bs m1 = Inr m'"
    using Cons by fastforce
  ultimately show ?case by simp
qed

lemma foldE_addResult_throws:
  "Null \<in> set bs \<Longrightarrow> foldE addResult bs m = Inl TypeError"
  by (rule foldE_throws [of Null]) (auto dest: addResult_error)

lemma addEntryResults_returns:
  "entryReturns e \<Longrightarrow> \<exists>m'. addEntryResults e m = Inr m'"
  using foldE_addResult_returns
  by (auto simp: addEntryResults_def entryReturns_def split: option.splits if_splits)

lemma addEntryResults_throws:
  "\<not> entryReturns e \<Longrightarrow> addEntryResults e m = Inl TypeError"
  by (auto simp: addEntryResults_def entryReturns_def foldE_addResult_throws
      split: option.splits if_splits)

lemma addEntryResults_error: "addEntryResults e m = Inl err \<Longrightarrow> err = TypeError"
  by (auto simp: addEntryResults_def dest: foldE_addResult_error split: option.splits if_splits)

lemma buildToolResultMap_returns:
  assumes "noNullOutcome entries"
  shows "\<exists>m. buildToolResultMap entries = Inr m"
proof -
  have "\<exists>m'. foldE addEntryResults es m = Inr m'" if "list_all entryReturns es" for es m
    using that
  proof (induction es arbitrary: m)
    case Nil
    then show ?case by simp
  next
    case (Cons e es)
    then obtain m1 where "addEntryResults e m = Inr m1"
      using addEntryResults_returns [of e m] by auto
    moreover obtain m' where "foldE addEntryResults es m1 = Inr m'"
      using Cons by fastforce
    ultimately show ?case by simp
  qed
  moreover have "list_all entryReturns entries"
    using assms by (simp add: noNullOutcome_def)
  ultimately show ?thesis by (simp add: buildToolResultMap_def)
qed

lemma buildToolResultMap_throws:
  assumes "\<not> noNullOutcome entries"
  shows "buildToolResultMap entries = Inl TypeError"
proof -
  from assms obtain e where e: "e \<in> set entries" "\<not> entryReturns e"
    by (auto simp: noNullOutcome_def list_all_iff)
  have "foldE addEntryResults entries Map.empty = Inl TypeError"
    using e(1)
  proof (rule foldE_throws)
    show "addEntryResults e m = Inl TypeError" for m
      using e(2) by (rule addEntryResults_throws)
    show "err = TypeError" if "addEntryResults y m = Inl err" for y m err
      using that by (rule addEntryResults_error)
  qed
  then show ?thesis by (simp add: buildToolResultMap_def)
qed

section \<open>Properties of the helpers\<close>

lemma removeTagged_plain: "CHR ''<'' \<notin> set s \<Longrightarrow> removeTagged tag s = s"
proof (induction s)
  case Nil
  show ?case by (simp add: removeTagged.simps [of tag "[]"])
next
  case (Cons x xs)
  then have "x \<noteq> CHR ''<''" and IH: "removeTagged tag xs = xs" by auto
  then show ?case
    by (simp add: removeTagged.simps [of tag "x # xs"] startsWith_def)
qed

lemma trim_plain:
  assumes "s \<noteq> []" and "\<not> isWhite (hd s)" and "\<not> isWhite (last s)"
  shows "trim s = s"
proof -
  have "dropWhile isWhite s = s"
    using assms by (cases s) simp_all
  moreover have "dropWhile isWhite (rev s) = rev s"
    using assms by (cases "rev s") (simp_all add: hd_rev [symmetric])
  ultimately show ?thesis by (simp add: trim_def)
qed

lemma stripSystemTags_plain:
  assumes "CHR ''<'' \<notin> set s" and "s \<noteq> []" and "\<not> isWhite (hd s)" and "\<not> isWhite (last s)"
  shows "stripSystemTags s = s"
  using assms by (simp add: stripSystemTags_def removeTagged_plain trim_plain)

section \<open>Properties of the conversation digest\<close>

lemma isUser_not_isAssistant: "isUser e \<Longrightarrow> \<not> isAssistant e"
  by (auto simp: isUser_def isAssistant_def)

lemma turnNum_pushDigest [simp]: "turnNum (pushDigest r t st) = turnNum st"
  by (simp add: pushDigest_def)

lemma turnNum_digestStep:
  "turnNum (plainDigestStep e st) = turnNum st + (if opensTurn e then 1 else 0)"
  by (auto simp: plainDigestStep_def opensTurn_def Let_def isUser_not_isAssistant split: option.splits)

lemma turnNum_fold:
  "turnNum (fold plainDigestStep es st) = turnNum st + length (filter opensTurn es)"
  by (induction es arbitrary: st) (simp_all add: turnNum_digestStep)

lemma digest_pushDigest:
  "digest (pushDigest r t st) =
     digest st @ (if t \<noteq> [] then [\<lparr>d_turn = turnNum st, d_role = r, d_content = truncate (Some t) 300\<rparr>] else [])"
  by (simp add: pushDigest_def)


lemma plainDigestStep_assistant:
  "isAssistant e \<Longrightarrow> contentArray e = Some bs \<Longrightarrow>
   plainDigestStep e st = pushDigest ''assistant'' (assistantText bs) st"
  using isUser_not_isAssistant [of e] by (auto simp: plainDigestStep_def Let_def)


lemma plainDigestStep_extends: "\<exists>xs. digest (plainDigestStep e st) = digest st @ xs"
  by (auto simp: plainDigestStep_def Let_def digest_pushDigest split: option.splits)

lemma fold_digestStep_extends: "\<exists>xs. digest (fold plainDigestStep es st) = digest st @ xs"
proof (induction es arbitrary: st)
  case Nil
  show ?case by simp
next
  case (Cons e es)
  obtain xs where xs: "digest (plainDigestStep e st) = digest st @ xs"
    using plainDigestStep_extends by blast
  obtain ys where "digest (fold plainDigestStep es (plainDigestStep e st)) = digest (plainDigestStep e st) @ ys"
    using Cons.IH by blast
  with xs show ?case by simp
qed



lemma assistant_segment_fold:
  assumes "isAssistant e" and "contentArray e = Some bs" and "assistantText bs \<noteq> []"
  shows "\<lparr>d_turn = turnNum st + length (filter opensTurn pre), d_role = ''assistant'',
           d_content = truncate (Some (assistantText bs)) 300\<rparr>
         \<in> set (digest (fold plainDigestStep (pre @ e # post) st))"
proof -
  let ?st1 = "fold plainDigestStep pre st"
  let ?d = "\<lparr>d_turn = turnNum st + length (filter opensTurn pre), d_role = ''assistant'',
           d_content = truncate (Some (assistantText bs)) 300\<rparr>"
  have "digest (plainDigestStep e ?st1) = digest ?st1 @ [?d]"
    using assms by (simp add: plainDigestStep_assistant digest_pushDigest turnNum_fold)
  moreover obtain xs where
    "digest (fold plainDigestStep post (plainDigestStep e ?st1)) = digest (plainDigestStep e ?st1) @ xs"
    using fold_digestStep_extends by blast
  ultimately show ?thesis by simp
qed


lemma handoff_digest:
  "h_conversation_digest (plainHandoff w entries sid) = digest (plainDigestLoop entries)"
  by (simp add: plainHandoff_def assemble_def Let_def)

lemma plainHandoff_early_assistant:
  assumes "entries = pre @ e # post"
    and "\<forall>x \<in> set pre. \<not> opensTurn x"
    and "isAssistant e"
    and "contentArray e = Some bs"
    and "assistantText bs \<noteq> []"
  shows "\<lparr>d_turn = 0, d_role = ''assistant'',
           d_content = truncate (Some (assistantText bs)) 300\<rparr>
         \<in> set (h_conversation_digest (plainHandoff w entries sid))"
proof -
  have "filter opensTurn pre = []"
    using assms(2) by (simp add: filter_empty_conv)
  then show ?thesis
    using assistant_segment_fold [OF assms(3,4,5), of "\<lparr>digest = [], turnNum = 0\<rparr>" pre post]
    by (simp add: handoff_digest plainDigestLoop_def assms(1))
qed


lemmas log_defs = userEntry_def assistantEntry_def contentArray_def roleOf_def isUser_def
  isAssistant_def isToolResult_def opensTurn_def hasUserText_def



section \<open>Properties of the main loop\<close>

lemma actions_pushError [simp]: "actions (pushError w n i r a) = actions a"
  by (simp add: pushError_def)

lemma actions_recordFile [simp]: "actions (recordFile w n i a) = actions a"
  by (simp add: recordFile_def Let_def)

lemma toolCallCount_pushError [simp]: "toolCallCount (pushError w n i r a) = toolCallCount a"
  by (simp add: pushError_def)

lemma toolCallCount_recordFile [simp]: "toolCallCount (recordFile w n i a) = toolCallCount a"
  by (simp add: recordFile_def Let_def)

lemma actions_toolStep: "actions (toolStep w m b a) = actions a @ blockActions m b"
  by (cases b) (simp_all add: Let_def)

lemma toolCallCount_toolStep:
  "toolCallCount (toolStep w m b a) = toolCallCount a + (if isToolUse b then 1 else 0)"
  by (cases b) (simp_all add: Let_def)

lemma blockActions_not_toolUse: "\<not> isToolUse b \<Longrightarrow> blockActions m b = []"
  by (cases b) simp_all

lemma concat_blockActions_filter:
  "concat (map (blockActions m) (filter isToolUse bs)) = concat (map (blockActions m) bs)"
  by (induction bs) (simp_all add: blockActions_not_toolUse)

lemma actions_fold_toolStep:
  "actions (fold (toolStep w m) bs a) = actions a @ concat (map (blockActions m) bs)"
  by (induction bs arbitrary: a) (simp_all add: actions_toolStep)

lemma toolCallCount_fold_toolStep:
  "toolCallCount (fold (toolStep w m) bs a) = toolCallCount a + length (filter isToolUse bs)"
  by (induction bs arbitrary: a) (simp_all add: toolCallCount_toolStep)

lemma actions_entryStep:
  "actions (plainEntryStep w m e a) = actions a @ concat (map (blockActions m) (entryToolUses e))"
  using isUser_not_isAssistant [of e]
  by (auto simp: plainEntryStep_def entryToolUses_def Let_def plainPushUserMessages_def
      actions_fold_toolStep concat_blockActions_filter split: option.splits)

lemma toolCallCount_entryStep:
  "toolCallCount (plainEntryStep w m e a) = toolCallCount a + length (entryToolUses e)"
  using isUser_not_isAssistant [of e]
  by (auto simp: plainEntryStep_def entryToolUses_def Let_def plainPushUserMessages_def
      toolCallCount_fold_toolStep split: option.splits)

lemma actions_fold_entryStep:
  "actions (fold (plainEntryStep w m) es a) = actions a @ concat (map (blockActions m) (concat (map entryToolUses es)))"
  by (induction es arbitrary: a) (simp_all add: actions_entryStep)

lemma toolCallCount_fold_entryStep:
  "toolCallCount (fold (plainEntryStep w m) es a) = toolCallCount a + length (concat (map entryToolUses es))"
  by (induction es arbitrary: a) (simp_all add: toolCallCount_entryStep)

lemma actions_mainLoop:
  "actions (plainMainLoop w m entries) = concat (map (blockActions m) (toolUses entries))"
  by (simp add: plainMainLoop_def toolUses_def actions_fold_entryStep initAcc_def)

lemma toolCallCount_mainLoop:
  "toolCallCount (plainMainLoop w m entries) = length (toolUses entries)"
  by (simp add: plainMainLoop_def toolUses_def toolCallCount_fold_entryStep initAcc_def)

lemma plainHandoff_actions:
  "actionsOf (plainHandoff w entries sid)
     = concat (map (blockActions (outcomeMap entries)) (toolUses entries)) \<and>
   s_tool_calls (h_session (plainHandoff w entries sid)) = length (toolUses entries) \<and>
   blockActions m (ToolUse (Some ''Bash'') i input) =
     (if 5 < length (commandText input) \<and> \<not> startsWith (commandText input) ''echo ''
      then [\<lparr>a_command = truncate (Some (commandText input)) 300,
             a_description = someIfTruthy (in_description input),
             a_failed = resultIsError (m (idKey i)),
             a_output = (if resultIsError (m (idKey i)) then None else bashOutput (m (idKey i))),
             a_agent = None, a_result = None\<rparr>]
      else [])"
proof (intro conjI)
  show "actionsOf (plainHandoff w entries sid)
     = concat (map (blockActions (outcomeMap entries)) (toolUses entries))"
    by (simp add: actionsOf_def plainHandoff_def assemble_def Let_def actions_mainLoop)
  show "s_tool_calls (h_session (plainHandoff w entries sid)) = length (toolUses entries)"
    by (simp add: plainHandoff_def assemble_def Let_def toolCallCount_mainLoop)
  have "truthy (in_command input)" if "5 < length (commandText input)"
    using that by (auto simp: commandText_def truthy_def trim_def split: option.splits)
  then show "blockActions m (ToolUse (Some ''Bash'') i input) =
     (if 5 < length (commandText input) \<and> \<not> startsWith (commandText input) ''echo ''
      then [\<lparr>a_command = truncate (Some (commandText input)) 300,
             a_description = someIfTruthy (in_description input),
             a_failed = resultIsError (m (idKey i)),
             a_output = (if resultIsError (m (idKey i)) then None else bashOutput (m (idKey i))),
             a_agent = None, a_result = None\<rparr>]
      else [])"
    by (auto simp: bashAction_def taskAction_def Let_def commandText_def)
qed

lemma truncate_nonempty: "c \<noteq> [] \<Longrightarrow> truncate (Some c) m \<noteq> []"
  by (simp add: truncate_def)

lemma userMessages_pushError [simp]: "userMessages (pushError w n i r a) = userMessages a"
  by (simp add: pushError_def)

lemma userMessages_recordFile [simp]: "userMessages (recordFile w n i a) = userMessages a"
  by (simp add: recordFile_def Let_def)

lemma userMessages_toolStep [simp]: "userMessages (toolStep w m b a) = userMessages a"
  by (cases b) (simp_all add: Let_def)

lemma userMessages_fold_toolStep [simp]:
  "userMessages (fold (toolStep w m) bs a) = userMessages a"
  by (induction bs arbitrary: a) simp_all

lemma userMessages_entryStep:
  "userMessages (plainEntryStep w m e a) = userMessages a @ entryUserMessages e"
  by (auto simp: plainEntryStep_def entryUserMessages_def Let_def plainPushUserMessages_def
      split: option.splits)

lemma userMessages_fold_entryStep:
  "userMessages (fold (plainEntryStep w m) es a) = userMessages a @ concat (map entryUserMessages es)"
  by (induction es arbitrary: a) (simp_all add: userMessages_entryStep)

lemma userMessages_mainLoop:
  "userMessages (plainMainLoop w m entries) = concat (map entryUserMessages entries)"
  by (simp add: plainMainLoop_def userMessages_fold_entryStep initAcc_def)

lemma foldl_addUserText_empty:
  "foldl addUserText tx bs = [] \<longleftrightarrow> tx = [] \<and> concat (map userMessageOf bs) = []"
proof (induction bs arbitrary: tx)
  case Nil
  show ?case by simp
next
  case (Cons b bs)
  show ?case
    by (cases "(tx, b)" rule: addUserText.cases) (auto simp: Cons.IH Let_def truncate_nonempty)
qed

lemma userText_empty: "userText bs = [] \<longleftrightarrow> concat (map userMessageOf bs) = []"
  by (simp add: userText_def foldl_addUserText_empty)

lemma entryUserMessages_empty: "entryUserMessages e = [] \<longleftrightarrow> \<not> hasUserText e"
  by (auto simp: entryUserMessages_def hasUserText_def userText_empty split: option.splits)


lemma handoff_task:
  assumes "entries = pre @ e # post"
    and "\<forall>x \<in> set pre. \<not> hasUserText x"
    and "opensTurn e"
    and "contentArray e = Some (bpre @ Text (Some t) # bpost)"
    and "userText bpre = []"
    and "stripSystemTags t \<noteq> []"
  shows "h_task (plainHandoff w entries sid) = truncate (Some (stripSystemTags t)) 500"
proof -
  have pre: "concat (map entryUserMessages pre) = []"
    using assms(2) by (simp add: entryUserMessages_empty)
  have bpre: "concat (map userMessageOf bpre) = []"
    using assms(5) by (simp add: userText_empty)
  have "entryUserMessages e
      = truncate (Some (stripSystemTags t)) 500 # concat (map userMessageOf bpost)"
    using assms(3,4,6) bpre
    by (simp add: entryUserMessages_def opensTurn_def Let_def)
  then have "userMessages (plainMainLoop w (outcomeMap entries) entries)
      = truncate (Some (stripSystemTags t)) 500
        # concat (map userMessageOf bpost) @ concat (map entryUserMessages post)"
    using pre by (simp add: userMessages_mainLoop assms(1))
  then show ?thesis
    using truncate_nonempty [OF assms(6), of 500]
    by (simp add: plainHandoff_def assemble_def Let_def)
qed

lemma longText_plain: "plainText longText"
  by (simp add: plainText_def longText_def isWhite_def)

lemma plainHandoff_longText:
  "opensTurn (userEntry [Text (Some longText)]) \<and>
   h_task (plainHandoff env0 [userEntry [Text (Some longText)]] ''s'') \<noteq> longText"
proof -
  have s: "stripSystemTags longText = longText"
    using longText_plain by (simp add: plainText_def stripSystemTags_plain)
  have "h_task (plainHandoff env0 [userEntry [Text (Some longText)]] ''s'')
          = truncate (Some (stripSystemTags longText)) 500"
    by (rule handoff_task
        [of _ "[]" "userEntry [Text (Some longText)]" "[]" "[]" longText "[]"])
       (simp_all add: log_defs s userText_def, simp add: longText_def)
  then have "h_task (plainHandoff env0 [userEntry [Text (Some longText)]] ''s'')
      = truncate (Some longText) 500"
    by (simp add: s)
  then have "length (h_task (plainHandoff env0 [userEntry [Text (Some longText)]] ''s'')) = 503"
    by (simp add: truncate_def longText_def)
  then have "h_task (plainHandoff env0 [userEntry [Text (Some longText)]] ''s'') \<noteq> longText"
    by (auto simp: longText_def)
  then show ?thesis by (simp add: log_defs)
qed

subsection \<open>File changes\<close>

lemma fileChanges_pushError [simp]: "fileChanges (pushError w n i r a) = fileChanges a"
  by (simp add: pushError_def)

lemma fileChanges_recordFile_cong:
  "fileChanges a = fileChanges a' \<Longrightarrow>
   fileChanges (recordFile w n i a) = fileChanges (recordFile w n i a')"
  by (simp add: recordFile_def Let_def)

lemma fileChanges_toolStep_ToolUse:
  "fileChanges (toolStep w m (ToolUse n i input) a)
     = fileChanges (recordFile w n input (pushError w n input (m (idKey i))
         (a\<lparr>toolCallCount := toolCallCount a + 1\<rparr>)))"
  by (simp add: Let_def)

lemma fileChanges_toolStep: "fileChanges (toolStep w m b a) = fileStep w b (fileChanges a)"
proof (cases b)
  case (ToolUse n i input)
  have "fileChanges (recordFile w n input (pushError w n input (m (idKey i))
            (a\<lparr>toolCallCount := toolCallCount a + 1\<rparr>)))
      = fileChanges (recordFile w n input (pushError w n input (Map.empty (idKey i))
            ((initAcc\<lparr>fileChanges := fileChanges a\<rparr>)
               \<lparr>toolCallCount := toolCallCount (initAcc\<lparr>fileChanges := fileChanges a\<rparr>) + 1\<rparr>)))"
    by (rule fileChanges_recordFile_cong) simp
  then show ?thesis
    unfolding ToolUse fileStep_def fileChanges_toolStep_ToolUse .
qed (simp_all add: fileStep_def)

lemma fileStep_not_toolUse: "\<not> isToolUse b \<Longrightarrow> fileStep w b fc = fc"
  by (cases b) (simp_all add: fileStep_def)

lemma fileChanges_fold_toolStep:
  "fileChanges (fold (toolStep w m) bs a) = fold (fileStep w) (filter isToolUse bs) (fileChanges a)"
  by (induction bs arbitrary: a) (simp_all add: fileChanges_toolStep fileStep_not_toolUse)

lemma fileChanges_entryStep:
  "fileChanges (plainEntryStep w m e a) = fold (fileStep w) (entryToolUses e) (fileChanges a)"
  using isUser_not_isAssistant [of e]
  by (auto simp: plainEntryStep_def entryToolUses_def Let_def plainPushUserMessages_def
      fileChanges_fold_toolStep split: option.splits)

lemma fileChanges_fold_entryStep:
  "fileChanges (fold (plainEntryStep w m) es a)
     = fold (fileStep w) (concat (map entryToolUses es)) (fileChanges a)"
  by (induction es arbitrary: a) (simp_all add: fileChanges_entryStep)

lemma fileChanges_mainLoop:
  "fileChanges (plainMainLoop w m entries) = fold (fileStep w) (toolUses entries) []"
  by (simp add: plainMainLoop_def toolUses_def fileChanges_fold_entryStep initAcc_def)

lemma fileStep_ToolUse:
  "fileStep w (ToolUse n i input) fc =
     (if n = Some ''Write'' \<and> truthy (in_file_path input) then
        AList.update (shortPath w (in_file_path input))
          \<lparr>ci_action = ''created'', ci_summary = Some (writeSummary input), ci_edits = None\<rparr> fc
      else if n = Some ''Edit'' \<and> truthy (in_file_path input) then
        (case (in_old_string input, in_new_string input) of
           (Some old, Some new) \<Rightarrow>
             pushEdit (shortPath w (in_file_path input))
               \<lparr>removed = truncate (Some old) 200, added = truncate (Some new) 200,
                e_replace_all = in_replace_all input\<rparr>
               (markModified (shortPath w (in_file_path input)) fc)
         | _ \<Rightarrow> markModified (shortPath w (in_file_path input)) fc)
      else fc)"
  by (simp add: fileStep_def recordFile_def Let_def initAcc_def pushError_def resultIsError_def)

lemma map_of_markModified:
  "map_of (markModified sp fc) k =
     (if k = sp then
        Some (case map_of fc sp of
                None \<Rightarrow> \<lparr>ci_action = ''modified'', ci_summary = None, ci_edits = Some []\<rparr>
              | Some info \<Rightarrow> info\<lparr>ci_action := ''modified''\<rparr>)
      else map_of fc k)"
  by (simp add: markModified_def update_conv' split: option.splits)

lemma map_of_pushEdit:
  "map_of (pushEdit sp ed fc) k =
     (if k = sp then
        (case map_of fc sp of
           None \<Rightarrow> None
         | Some info \<Rightarrow>
             Some (info\<lparr>ci_edits := Some ((case ci_edits info of None \<Rightarrow> [] | Some es \<Rightarrow> es) @ [ed])\<rparr>))
      else map_of fc k)"
  by (simp add: pushEdit_def update_conv' split: option.splits)

lemma distinct_markModified:
  "distinct (map fst fc) \<Longrightarrow> distinct (map fst (markModified sp fc))"
  by (simp add: markModified_def distinct_update split: option.splits)

lemma distinct_pushEdit:
  "distinct (map fst fc) \<Longrightarrow> distinct (map fst (pushEdit sp ed fc))"
  by (simp add: pushEdit_def distinct_update split: option.splits)

lemma distinct_fileStep:
  "distinct (map fst fc) \<Longrightarrow> distinct (map fst (fileStep w b fc))"
  by (cases b)
     (auto simp: fileStep_ToolUse fileStep_not_toolUse distinct_update distinct_markModified
        distinct_pushEdit split: option.splits)

lemma distinct_fold_fileStep:
  "distinct (map fst fc) \<Longrightarrow> distinct (map fst (fold (fileStep w) bs fc))"
  by (induction bs arbitrary: fc) (simp_all add: distinct_fileStep)

lemma edit_modifies: "editsAt w sp b \<Longrightarrow> isModified (fileStep w b fc) sp"
  by (cases b)
     (auto simp: fileStep_ToolUse isModified_def map_of_markModified map_of_pushEdit
        split: option.splits)

lemma write_creates: "writesTo w sp b \<Longrightarrow> isCreated (fileStep w b fc) sp"
  by (cases b) (auto simp: fileStep_ToolUse isCreated_def update_conv')

lemma modified_stays:
  "\<not> writesTo w sp b \<Longrightarrow> isModified fc sp \<Longrightarrow> isModified (fileStep w b fc) sp"
  by (cases b)
     (auto simp: fileStep_ToolUse fileStep_not_toolUse isModified_def map_of_markModified
        map_of_pushEdit update_conv' split: option.splits)

lemma created_stays:
  "\<not> editsAt w sp b \<Longrightarrow> isCreated fc sp \<Longrightarrow> isCreated (fileStep w b fc) sp"
  by (cases b)
     (auto simp: fileStep_ToolUse fileStep_not_toolUse isCreated_def map_of_markModified
        map_of_pushEdit update_conv' split: option.splits)

lemma modified_stays_fold:
  "\<forall>b \<in> set bs. \<not> writesTo w sp b \<Longrightarrow> isModified fc sp
   \<Longrightarrow> isModified (fold (fileStep w) bs fc) sp"
  by (induction bs arbitrary: fc) (simp_all add: modified_stays)

lemma created_stays_fold:
  "\<forall>b \<in> set bs. \<not> editsAt w sp b \<Longrightarrow> isCreated fc sp
   \<Longrightarrow> isCreated (fold (fileStep w) bs fc) sp"
  by (induction bs arbitrary: fc) (simp_all add: created_stays)

lemma handoff_changes:
  "h_changes (plainHandoff w entries sid)
     = map changeOf (fold (fileStep w) (toolUses entries) [])"
  by (simp add: plainHandoff_def assemble_def Let_def fileChanges_mainLoop)

lemma c_file_changeOf [simp]: "c_file (changeOf p) = fst p"
  by (simp add: changeOf_def)

lemma changesFor_distinct:
  assumes "distinct (map fst fc)" and "map_of fc sp = Some info"
  shows "filter (\<lambda>c. c_file c = sp) (map changeOf fc) = [changeOf (sp, info)]"
  using assms
proof (induction fc)
  case Nil
  then show ?case by simp
next
  case (Cons p fc)
  show ?case
  proof (cases "fst p = sp")
    case True
    then have "sp \<notin> fst ` set fc" using Cons.prems(1) by auto
    then have "filter (\<lambda>c. c_file c = sp) (map changeOf fc) = []"
      by (auto simp: filter_empty_conv)
    moreover have "p = (sp, info)"
      using True Cons.prems(2) by (cases p) simp
    ultimately show ?thesis by simp
  next
    case False
    then show ?thesis
      using Cons by (cases p) simp
  qed
qed

lemma changes_after_edit:
  assumes "toolUses entries = pre @ b # post"
    and "editsAt w sp b" and "\<forall>x \<in> set post. \<not> writesTo w sp x"
  shows "\<exists>c. changesFor sp (plainHandoff w entries sid) = [c] \<and> c_action c = ''modified''"
proof -
  let ?fc = "fold (fileStep w) (toolUses entries) []"
  have d: "distinct (map fst ?fc)"
    by (rule distinct_fold_fileStep) simp
  have "isModified (fileStep w b (fold (fileStep w) pre [])) sp"
    using assms(2) by (rule edit_modifies)
  then have "isModified ?fc sp"
    using assms(3) by (simp add: assms(1) modified_stays_fold)
  then obtain info where i: "map_of ?fc sp = Some info" "ci_action info = ''modified''"
    by (auto simp: isModified_def)
  have "changesFor sp (plainHandoff w entries sid) = [changeOf (sp, info)]"
    using changesFor_distinct [OF d i(1)] by (simp add: changesFor_def handoff_changes)
  moreover have "c_action (changeOf (sp, info)) = ''modified''"
    using i(2) by (simp add: changeOf_def)
  ultimately show ?thesis by blast
qed

lemma changes_after_write:
  assumes "toolUses entries = pre @ b # post"
    and "writesTo w sp b" and "\<forall>x \<in> set post. \<not> editsAt w sp x"
  shows "\<exists>c. changesFor sp (plainHandoff w entries sid) = [c] \<and> c_action c = ''created''
           \<and> c_edits c = None"
proof -
  let ?fc = "fold (fileStep w) (toolUses entries) []"
  have d: "distinct (map fst ?fc)"
    by (rule distinct_fold_fileStep) simp
  have "isCreated (fileStep w b (fold (fileStep w) pre [])) sp"
    using assms(2) by (rule write_creates)
  then have "isCreated ?fc sp"
    using assms(3) by (simp add: assms(1) created_stays_fold)
  then obtain info where i: "map_of ?fc sp = Some info" "ci_action info = ''created''"
      "ci_edits info = None"
    by (auto simp: isCreated_def)
  have "changesFor sp (plainHandoff w entries sid) = [changeOf (sp, info)]"
    using changesFor_distinct [OF d i(1)] by (simp add: changesFor_def handoff_changes)
  moreover have "c_action (changeOf (sp, info)) = ''created''"
      and "c_edits (changeOf (sp, info)) = None"
    using i(2,3) by (simp_all add: changeOf_def)
  ultimately show ?thesis by blast
qed

lemma shortPath_a: "shortPath env0 (Some ''/work/app/a.txt'') = ''a.txt''"
  by (simp add: shortPath_def env0_def slashes_def startsWith_def Let_def)

lemmas file_defs = writeOf_def editOf_def emptyInput_def truthy_def

lemma plainHandoff_writeEditWriteLog:
  "toolUses writeEditWriteLog
     = [writeOf ''/work/app/a.txt'' ''x'', editOf ''/work/app/a.txt'' ''x'' ''y'',
        writeOf ''/work/app/a.txt'' ''z''] \<and>
   map c_action (changesFor ''a.txt'' (plainHandoff env0 writeEditWriteLog ''s''))
     = [''created'']"
proof -
  let ?w = "writeOf ''/work/app/a.txt'' ''x''"
  let ?e = "editOf ''/work/app/a.txt'' ''x'' ''y''"
  let ?z = "writeOf ''/work/app/a.txt'' ''z''"
  have tu: "toolUses writeEditWriteLog = [?w, ?e] @ ?z # []"
    by (simp add: toolUses_def entryToolUses_def writeEditWriteLog_def log_defs file_defs)
  have z: "writesTo env0 ''a.txt'' ?z"
    by (simp add: file_defs shortPath_a)
  have "\<exists>c. changesFor ''a.txt'' (plainHandoff env0 writeEditWriteLog ''s'') = [c]
        \<and> c_action c = ''created'' \<and> c_edits c = None"
    using changes_after_write [OF tu z] by simp
  then have "map c_action (changesFor ''a.txt'' (plainHandoff env0 writeEditWriteLog ''s''))
     = [''created'']"
    by auto
  with tu show ?thesis by simp
qed

subsection \<open>Optional fields\<close>

lemma fold_addUnique_empty:
  "snd (fold addUnique ss (seen, uniq)) = [] \<longleftrightarrow>
     uniq = [] \<and> (\<forall>s \<in> set ss. searchKey s \<in> set seen)"
  by (induction ss arbitrary: seen uniq) auto

lemma uniqueSearches_empty: "uniqueSearches ss = [] \<longleftrightarrow> ss = []"
  by (cases ss) (simp_all add: uniqueSearches_def fold_addUnique_empty)

lemma c_edits_changeOf: "c_edits (changeOf p) \<noteq> Some []"
  by (simp add: changeOf_def split: option.splits)

lemma plainHandoff_optional_fields:
  "h_errors (plainHandoff w entries sid) \<noteq> Some [] \<and>
   h_actions (plainHandoff w entries sid) \<noteq> Some [] \<and>
   map_option ss_unique_patterns (h_searches (plainHandoff w entries sid)) \<noteq> Some [] \<and>
   gc_uncommitted_changes (h_git_context (plainHandoff w entries sid)) \<noteq> Some [] \<and>
   Some [] \<notin> set (map c_edits (h_changes (plainHandoff w entries sid))) \<and>
   (h_errors (plainHandoff w entries sid) = None)
     = (errors (plainMainLoop w (outcomeMap entries) entries) = []) \<and>
   (h_actions (plainHandoff w entries sid) = None)
     = (actions (plainMainLoop w (outcomeMap entries) entries) = []) \<and>
   (h_searches (plainHandoff w entries sid) = None)
     = (searches (plainMainLoop w (outcomeMap entries) entries) = []) \<and>
   (gc_uncommitted_changes (h_git_context (plainHandoff w entries sid)) = None)
     = (g_uncommitted_files (getGitContext w) = [])"
proof -
  let ?h = "plainHandoff w entries sid"
  let ?a = "plainMainLoop w (outcomeMap entries) entries"
  have 1: "h_errors ?h \<noteq> Some []"
    by (simp add: plainHandoff_def assemble_def Let_def)
  have 2: "h_actions ?h \<noteq> Some []"
    by (simp add: plainHandoff_def assemble_def Let_def)
  have 3: "map_option ss_unique_patterns (h_searches ?h) \<noteq> Some []"
    by (simp add: plainHandoff_def assemble_def Let_def)
  have 4: "gc_uncommitted_changes (h_git_context ?h) \<noteq> Some []"
    by (simp add: plainHandoff_def assemble_def Let_def)
  have 5: "Some [] \<notin> set (map c_edits (h_changes ?h))"
    using c_edits_changeOf by (fastforce simp: plainHandoff_def assemble_def Let_def)
  have 6: "(h_errors ?h = None) = (errors ?a = [])"
    by (simp add: plainHandoff_def assemble_def Let_def)
  have 7: "(h_actions ?h = None) = (actions ?a = [])"
    by (simp add: plainHandoff_def assemble_def Let_def)
  have 8: "(h_searches ?h = None) = (searches ?a = [])"
    by (simp add: plainHandoff_def assemble_def Let_def uniqueSearches_empty)
  have 9: "(gc_uncommitted_changes (h_git_context ?h) = None)
     = (g_uncommitted_files (getGitContext w) = [])"
    by (simp add: plainHandoff_def assemble_def Let_def)
  from 1 2 3 4 5 6 7 8 9 show ?thesis by blast
qed


section \<open>The loops and their folds\<close>

lemma pushUserMessage_Inr:
  "pushUserMessage b a = Inr a' \<Longrightarrow> a' = a\<lparr>userMessages := userMessages a @ userMessageOf b\<rparr>"
  by (cases "(b, a)" rule: pushUserMessage.cases) auto

lemma pushUserMessage_returns:
  "wellFormedBlock b \<Longrightarrow>
   pushUserMessage b a = Inr (a\<lparr>userMessages := userMessages a @ userMessageOf b\<rparr>)"
  by (cases "(b, a)" rule: pushUserMessage.cases) (auto simp: wellFormedBlock_def)

lemma fold_userMessageOf:
  "fold (\<lambda>b a. a\<lparr>userMessages := userMessages a @ userMessageOf b\<rparr>) bs a
     = plainPushUserMessages bs a"
  by (induction bs arbitrary: a) (simp_all add: plainPushUserMessages_def)

lemma foldE_pushUserMessage_Inr:
  assumes "foldE pushUserMessage bs a = Inr a'"
  shows "a' = plainPushUserMessages bs a"
  using foldE_Inr_fold [OF assms, of "\<lambda>b a. a\<lparr>userMessages := userMessages a @ userMessageOf b\<rparr>"]
    pushUserMessage_Inr
  by (simp add: fold_userMessageOf)

lemma foldE_pushUserMessage_returns:
  assumes "list_all wellFormedBlock bs"
  shows "foldE pushUserMessage bs a = Inr (plainPushUserMessages bs a)"
proof -
  have "foldE pushUserMessage bs a
      = Inr (fold (\<lambda>b a. a\<lparr>userMessages := userMessages a @ userMessageOf b\<rparr>) bs a)"
    using assms by (intro foldE_fold pushUserMessage_returns) (simp add: list_all_iff)
  then show ?thesis by (simp add: fold_userMessageOf)
qed

lemma foldE_blockStep_Inr:
  assumes "foldE (blockStep w m) bs a = Inr a'"
  shows "a' = fold (toolStep w m) bs a"
  using assms by (rule foldE_Inr_fold) (auto simp: blockStep_def split: if_splits)

lemma foldE_blockStep_returns:
  assumes "Null \<notin> set bs"
  shows "foldE (blockStep w m) bs a = Inr (fold (toolStep w m) bs a)"
  using assms by (intro foldE_fold) (auto simp: blockStep_def)

lemma wellFormed_no_Null: "list_all wellFormedBlock bs \<Longrightarrow> Null \<notin> set bs"
  by (auto simp: list_all_iff wellFormedBlock_def)

lemma entryStep_Inr:
  assumes "entryStep w m e a = Inr a'"
  shows "a' = plainEntryStep w m e a"
proof (cases "contentArray e")
  case None
  with assms show ?thesis by (simp add: entryStep_def plainEntryStep_def)
next
  case (Some bs)
  show ?thesis
  proof (cases "isUser e")
    case True
    then have na: "\<not> isAssistant e" by (auto simp: isUser_def isAssistant_def)
    from assms True Some obtain r where r: "someBlock isToolResultBlock bs = Inr r"
      by (auto simp: entryStep_def split: sum.splits)
    then have ri: "r = isToolResult bs" by (rule someBlock_isToolResult)
    show ?thesis
    proof (cases r)
      case True
      with assms r ri \<open>isUser e\<close> Some show ?thesis
        by (simp add: entryStep_def plainEntryStep_def)
    next
      case False
      with assms r \<open>isUser e\<close> Some na have "foldE pushUserMessage bs a = Inr a'"
        by (auto simp: entryStep_def split: sum.splits)
      then have "a' = plainPushUserMessages bs a" by (rule foldE_pushUserMessage_Inr)
      with False ri \<open>isUser e\<close> Some na show ?thesis
        by (simp add: plainEntryStep_def)
    qed
  next
    case False
    show ?thesis
    proof (cases "isAssistant e")
      case True
      with assms False Some have "foldE (blockStep w m) bs a = Inr a'"
        by (simp add: entryStep_def)
      then have "a' = fold (toolStep w m) bs a" by (rule foldE_blockStep_Inr)
      with True False Some show ?thesis by (simp add: plainEntryStep_def)
    next
      case na: False
      with assms False Some show ?thesis by (simp add: entryStep_def plainEntryStep_def)
    qed
  qed
qed

lemma entryStep_returns:
  assumes "wellFormedEntry e"
  shows "entryStep w m e a = Inr (plainEntryStep w m e a)"
proof (cases "contentArray e")
  case None
  then show ?thesis by (simp add: entryStep_def plainEntryStep_def)
next
  case (Some bs)
  with assms have wf: "list_all wellFormedBlock bs"
    by (simp add: wellFormedEntry_def)
  then have nn: "Null \<notin> set bs" by (rule wellFormed_no_Null)
  have sb: "someBlock isToolResultBlock bs = Inr (isToolResult bs)"
    using nn by (simp add: someBlock_returns isToolResult_def)
  show ?thesis
    using isUser_not_isAssistant [of e]
    by (cases "isToolResult bs")
       (auto simp: entryStep_def plainEntryStep_def Some sb foldE_pushUserMessage_returns [OF wf]
          foldE_blockStep_returns [OF nn])
qed

lemma mainLoop_Inr:
  assumes "mainLoop w m entries = Inr a"
  shows "a = plainMainLoop w m entries"
  unfolding plainMainLoop_def
  using assms [unfolded mainLoop_def] by (rule foldE_Inr_fold) (rule entryStep_Inr)

lemma mainLoop_returns:
  assumes "wellFormed entries"
  shows "mainLoop w m entries = Inr (plainMainLoop w m entries)"
  unfolding mainLoop_def plainMainLoop_def
  using assms
  by (intro foldE_fold entryStep_returns) (simp add: wellFormed_def list_all_iff)

lemma userTextStep_Inr: "userTextStep b tx = Inr t' \<Longrightarrow> t' = addUserText tx b"
  by (cases "(b, tx)" rule: userTextStep.cases) auto

lemma userTextStep_returns: "wellFormedBlock b \<Longrightarrow> userTextStep b tx = Inr (addUserText tx b)"
  by (cases "(b, tx)" rule: userTextStep.cases) (auto simp: wellFormedBlock_def)

lemma assistantTextStep_Inr: "assistantTextStep b tx = Inr t' \<Longrightarrow> t' = addAssistantText tx b"
  by (cases "(b, tx)" rule: assistantTextStep.cases) auto

lemma assistantTextStep_returns: "b \<noteq> Null \<Longrightarrow> assistantTextStep b tx = Inr (addAssistantText tx b)"
  by (cases "(b, tx)" rule: assistantTextStep.cases) auto

lemma foldE_userTextStep_Inr:
  assumes "foldE userTextStep bs [] = Inr tx"
  shows "tx = userText bs"
  using foldE_Inr_fold [OF assms, of "\<lambda>b t. addUserText t b"] userTextStep_Inr
  by (simp add: userText_def foldl_conv_fold)

lemma foldE_userTextStep_returns:
  assumes "list_all wellFormedBlock bs"
  shows "foldE userTextStep bs [] = Inr (userText bs)"
proof -
  have "foldE userTextStep bs [] = Inr (fold (\<lambda>b t. addUserText t b) bs [])"
    using assms by (intro foldE_fold userTextStep_returns) (simp add: list_all_iff)
  then show ?thesis by (simp add: userText_def foldl_conv_fold)
qed

lemma foldE_assistantTextStep_Inr:
  assumes "foldE assistantTextStep bs [] = Inr tx"
  shows "tx = assistantText bs"
  using foldE_Inr_fold [OF assms, of "\<lambda>b t. addAssistantText t b"] assistantTextStep_Inr
  by (simp add: assistantText_def foldl_conv_fold)

lemma foldE_assistantTextStep_returns:
  assumes "Null \<notin> set bs"
  shows "foldE assistantTextStep bs [] = Inr (assistantText bs)"
proof -
  have "foldE assistantTextStep bs [] = Inr (fold (\<lambda>b t. addAssistantText t b) bs [])"
    using assms by (intro foldE_fold assistantTextStep_returns) auto
  then show ?thesis by (simp add: assistantText_def foldl_conv_fold)
qed

lemma digestStep_Inr:
  assumes "digestStep e st = Inr st'"
  shows "st' = plainDigestStep e st"
proof (cases "contentArray e")
  case None
  with assms show ?thesis by (simp add: digestStep_def plainDigestStep_def)
next
  case (Some bs)
  show ?thesis
  proof (cases "isUser e")
    case True
    then have na: "\<not> isAssistant e" by (auto simp: isUser_def isAssistant_def)
    from assms True Some obtain r where r: "someBlock isToolResultBlock bs = Inr r"
      by (auto simp: digestStep_def split: sum.splits)
    then have ri: "r = isToolResult bs" by (rule someBlock_isToolResult)
    show ?thesis
    proof (cases r)
      case True
      with assms r ri \<open>isUser e\<close> Some show ?thesis
        by (simp add: digestStep_def plainDigestStep_def)
    next
      case False
      with assms r \<open>isUser e\<close> Some na obtain tx where tx: "foldE userTextStep bs [] = Inr tx"
          and st': "st' = pushDigest ''user'' tx (st\<lparr>turnNum := turnNum st + 1\<rparr>)"
        by (auto simp: digestStep_def split: sum.splits)
      from tx have "tx = userText bs" by (rule foldE_userTextStep_Inr)
      with st' False ri \<open>isUser e\<close> Some na show ?thesis
        by (simp add: plainDigestStep_def)
    qed
  next
    case False
    show ?thesis
    proof (cases "isAssistant e")
      case True
      with assms False Some obtain tx where tx: "foldE assistantTextStep bs [] = Inr tx"
          and st': "st' = pushDigest ''assistant'' tx st"
        by (auto simp: digestStep_def split: sum.splits)
      from tx have "tx = assistantText bs" by (rule foldE_assistantTextStep_Inr)
      with st' True False Some show ?thesis by (simp add: plainDigestStep_def)
    next
      case na: False
      with assms False Some show ?thesis by (simp add: digestStep_def plainDigestStep_def)
    qed
  qed
qed

lemma digestStep_returns:
  assumes "wellFormedEntry e"
  shows "digestStep e st = Inr (plainDigestStep e st)"
proof (cases "contentArray e")
  case None
  then show ?thesis by (simp add: digestStep_def plainDigestStep_def)
next
  case (Some bs)
  with assms have wf: "list_all wellFormedBlock bs"
    by (simp add: wellFormedEntry_def)
  then have nn: "Null \<notin> set bs" by (rule wellFormed_no_Null)
  have sb: "someBlock isToolResultBlock bs = Inr (isToolResult bs)"
    using nn by (simp add: someBlock_returns isToolResult_def)
  show ?thesis
    using isUser_not_isAssistant [of e]
    by (cases "isToolResult bs")
       (auto simp: digestStep_def plainDigestStep_def Some sb foldE_userTextStep_returns [OF wf]
          foldE_assistantTextStep_returns [OF nn])
qed

lemma digestLoop_Inr:
  assumes "digestLoop entries = Inr d"
  shows "d = plainDigestLoop entries"
  unfolding plainDigestLoop_def
  using assms [unfolded digestLoop_def] by (rule foldE_Inr_fold) (rule digestStep_Inr)

lemma digestLoop_returns:
  assumes "wellFormed entries"
  shows "digestLoop entries = Inr (plainDigestLoop entries)"
  unfolding digestLoop_def plainDigestLoop_def
  using assms
  by (intro foldE_fold digestStep_returns) (simp add: wellFormed_def list_all_iff)

lemma wellFormed_noNullOutcome: "wellFormed entries \<Longrightarrow> noNullOutcome entries"
  by (auto simp: wellFormed_def wellFormedEntry_def noNullOutcome_def entryReturns_def list_all_iff
      dest: wellFormed_no_Null [unfolded list_all_iff] split: option.splits)

lemma extractHandoff_parts:
  assumes "extractHandoff w entries sid = Inr h"
  shows "buildToolResultMap entries = Inr (outcomeMap entries)"
    and "mainLoop w (outcomeMap entries) entries
           = Inr (plainMainLoop w (outcomeMap entries) entries)"
    and "digestLoop entries = Inr (plainDigestLoop entries)"
    and "h = plainHandoff w entries sid"
proof -
  from assms obtain m a d where m: "buildToolResultMap entries = Inr m"
      and a: "mainLoop w m entries = Inr a" and d: "digestLoop entries = Inr d"
      and h: "h = assemble w entries sid (getGitContext w) a d"
    by (auto simp: extractHandoff_def Let_def split: sum.splits)
  have m': "m = outcomeMap entries" using m by (rule buildToolResultMap_outcomeMap)
  have a': "a = plainMainLoop w m entries" using a by (rule mainLoop_Inr)
  have d': "d = plainDigestLoop entries" using d by (rule digestLoop_Inr)
  show "buildToolResultMap entries = Inr (outcomeMap entries)" using m m' by simp
  show "mainLoop w (outcomeMap entries) entries
           = Inr (plainMainLoop w (outcomeMap entries) entries)"
    using a a' m' by simp
  show "digestLoop entries = Inr (plainDigestLoop entries)" using d d' by simp
  show "h = plainHandoff w entries sid"
    using h a' d' m' by (simp add: plainHandoff_def)
qed

lemma extractHandoff_returns:
  assumes "wellFormed entries"
  shows "extractHandoff w entries sid = Inr (plainHandoff w entries sid)"
proof -
  obtain m where m: "buildToolResultMap entries = Inr m"
    using buildToolResultMap_returns [OF wellFormed_noNullOutcome [OF assms]] by blast
  then have "m = outcomeMap entries" by (rule buildToolResultMap_outcomeMap)
  with m show ?thesis
    by (simp add: extractHandoff_def Let_def mainLoop_returns [OF assms]
        digestLoop_returns [OF assms] plainHandoff_def)
qed

section \<open>Properties of the active session detection\<close>

lemma splitOn_nonempty [simp]: "splitOn c s \<noteq> []"
  by (induction s) auto

lemma splitOn_append_sep:
  "splitOn c (xs @ c # ys) = splitOn c xs @ splitOn c ys"
proof (induction xs)
  case Nil
  show ?case by simp
next
  case (Cons x xs)
  show ?case
  proof (cases "x = c")
    case True
    then show ?thesis using Cons.IH by simp
  next
    case False
    have "splitOn c xs \<noteq> []" by simp
    then obtain l ls where l: "splitOn c xs = l # ls" by (cases "splitOn c xs") auto
    show ?thesis using False Cons.IH l by simp
  qed
qed

lemma trim_Nil [simp]: "trim [] = []"
  by (simp add: trim_def)

lemma nonBlankLines_append:
  assumes "lineAligned pre"
  shows "nonBlankLines (pre @ t) = nonBlankLines pre @ nonBlankLines t"
proof (cases "pre = []")
  case True
  then show ?thesis by (simp add: nonBlankLines_def)
next
  case False
  with assms obtain p0 where p0: "pre = p0 @ [CHR 0x0A]"
    unfolding lineAligned_def by (metis append_butlast_last_id)
  have "splitOn (CHR 0x0A) (pre @ t) = splitOn (CHR 0x0A) p0 @ splitOn (CHR 0x0A) t"
    using splitOn_append_sep [of "CHR 0x0A" p0 t] by (simp add: p0)
  moreover have "splitOn (CHR 0x0A) pre = splitOn (CHR 0x0A) p0 @ [[]]"
    using splitOn_append_sep [of "CHR 0x0A" p0 "[]"] by (simp add: p0)
  ultimately show ?thesis by (simp add: nonBlankLines_def)
qed

lemma tailWindow_drop: "tailWindow bs = drop (length bs - 16384) bs"
proof -
  have k: "length bs - min (length bs) 16384 = length bs - 16384"
    by arith
  have "length (drop (length bs - 16384) bs) \<le> min (length bs) 16384"
    unfolding length_drop by arith
  then have "take (min (length bs) 16384) (drop (length bs - 16384) bs)
      = drop (length bs - 16384) bs"
    by (rule take_all)
  then show ?thesis
    by (simp only: tailWindow_def Let_def k)
qed

lemma tailWindow_aligned:
  assumes "lineAligned pre" and "length t \<le> 16384"
  shows "\<exists>p. lineAligned p \<and> tailWindow (pre @ t) = p @ t"
proof -
  let ?k = "length (pre @ t) - 16384"
  have k: "?k \<le> length pre" using assms(2) by simp
  then have "tailWindow (pre @ t) = drop ?k pre @ t"
    by (simp add: tailWindow_drop)
  moreover have "lineAligned (drop ?k pre)"
  proof (cases "?k < length pre")
    case True
    then have "last (drop ?k pre) = last pre" by (rule last_drop)
    moreover from True have "pre \<noteq> []" by auto
    ultimately show ?thesis using assms(1) by (simp add: lineAligned_def)
  next
    case False
    then show ?thesis by (simp add: lineAligned_def)
  qed
  ultimately show ?thesis by blast
qed

lemma scanBack_append:
  "scanBack w (xs @ ys) = (case scanBack w xs of Some r \<Rightarrow> Some r | None \<Rightarrow> scanBack w ys)"
  by (induction xs) (auto split: option.splits)

lemma scanBack_first_parseable:
  assumes "filter (\<lambda>l. parse_line w l \<noteq> None) xs = l # ls"
    and "parse_line w l = Some e" and "timestamp e = Some ts" and "ts \<noteq> []"
  shows "scanBack w xs = Some (date_ms w ts)"
  using assms
proof (induction xs)
  case Nil
  then show ?case by simp
next
  case (Cons x xs)
  show ?case
  proof (cases "parse_line w x")
    case None
    then show ?thesis using Cons by simp
  next
    case (Some e')
    then have "x = l" using Cons.prems(1) by simp
    then show ?thesis using Cons.prems by simp
  qed
qed

lemma scanBack_lastRecord:
  assumes "lastRecord w s = Some e" and "timestamp e = Some ts" and "ts \<noteq> []"
  shows "scanBack w (rev (nonBlankLines s)) = Some (date_ms w ts)"
proof -
  obtain l ls where f: "filter (\<lambda>l. parse_line w l \<noteq> None) (rev (nonBlankLines s)) = l # ls"
    using assms(1) by (auto simp: lastRecord_def split: list.splits)
  then have "parse_line w l = Some e"
    using assms(1) by (simp add: lastRecord_def)
  with f show ?thesis
    using assms(2,3) by (rule scanBack_first_parseable)
qed

lemma lastRecord_append:
  assumes "lineAligned pre" and "lastRecord w t = Some e"
  shows "lastRecord w (pre @ t) = Some e"
proof -
  obtain l ls where f: "filter (\<lambda>l. parse_line w l \<noteq> None) (rev (nonBlankLines t)) = l # ls"
    using assms(2) by (auto simp: lastRecord_def split: list.splits)
  then show ?thesis
    using assms by (simp add: lastRecord_def nonBlankLines_append)
qed

lemma getLastEntryTimestamp_tail:
  assumes "bytes f = pre @ t" and "lineAligned pre" and "length t \<le> 16384"
    and "lastRecord w t = Some e" and "timestamp e = Some ts" and "ts \<noteq> []"
  shows "getLastEntryTimestamp w (Some f) = date_ms w ts"
proof -
  obtain p where p: "lineAligned p" "tailWindow (bytes f) = p @ t"
    using tailWindow_aligned [OF assms(2,3)] assms(1) by auto
  have "scanBack w (rev (nonBlankLines (tailWindow (bytes f)))) = Some (date_ms w ts)"
    using scanBack_lastRecord [OF assms(4,5,6)]
    by (simp add: p nonBlankLines_append scanBack_append)
  then show ?thesis by (simp add: getLastEntryTimestamp_def)
qed

lemma trim_empty_iff: "trim s = [] \<longleftrightarrow> (\<forall>c \<in> set s. isWhite c)"
proof
  assume "trim s = []"
  then have "\<forall>c \<in> set (dropWhile isWhite s). isWhite c"
    by (simp add: trim_def)
  then have "dropWhile isWhite s = []"
    using hd_dropWhile [of isWhite s] by (cases "dropWhile isWhite s") auto
  then show "\<forall>c \<in> set s. isWhite c"
    by simp
next
  assume "\<forall>c \<in> set s. isWhite c"
  then have h: "dropWhile isWhite s = []"
    by simp
  show "trim s = []" unfolding trim_def h by simp
qed

lemma splitOn_no_sep: "c \<notin> set s \<Longrightarrow> splitOn c s = [s]"
  by (induction s) auto

text \<open>
  Claim C1, as amended. Two session files A and B are the \<open>.jsonl\<close> files of the
  directory, in either order and among any other entries. When the last parseable
  record of each lies in a tail of the file
  of at most 16384 bytes that starts at a line boundary, and carries a timestamp, the
  timestamp found for the file is that of its last parseable record; the session chosen
  is B when its timestamp is the larger one, whatever the modification times are. For
  every file, at most 16384 bytes are scanned, and the modification time stands in when
  the scan finds no timestamp.
\<close>

theorem selects_latest_record:
  assumes "jsonlFiles w = [(a, Some fa), (b, Some fb)] \<or>
           jsonlFiles w = [(b, Some fb), (a, Some fa)]"
    and "bytes fa = preA @ tailA" and "lineAligned preA" and "length tailA \<le> 16384"
    and "lastRecord w tailA = Some ea" and "timestamp ea = Some tsa" and "tsa \<noteq> []"
    and "date_ms w tsa = Some T1"
    and "bytes fb = preB @ tailB" and "lineAligned preB" and "length tailB \<le> 16384"
    and "lastRecord w tailB = Some eb" and "timestamp eb = Some tsb" and "tsb \<noteq> []"
    and "date_ms w tsb = Some T2"
    and "T1 < T2"
  shows "selectSession w = Inr b \<and>
         lastRecord w (bytes fa) = Some ea \<and> lastRecord w (bytes fb) = Some eb \<and>
         getLastEntryTimestamp w (Some fa) = Some T1 \<and>
         getLastEntryTimestamp w (Some fb) = Some T2 \<and>
         length (tailWindow (bytes f)) \<le> 16384 \<and>
         (scanBack w (rev (nonBlankLines (tailWindow (bytes f)))) = None
            \<longrightarrow> getLastEntryTimestamp w (Some f) = Some (mtime f))"
proof -
  have ta: "getLastEntryTimestamp w (Some fa) = Some T1"
    using getLastEntryTimestamp_tail [OF assms(2,3,4,5,6,7)] assms(8) by simp
  have tb: "getLastEntryTimestamp w (Some fb) = Some T2"
    using getLastEntryTimestamp_tail [OF assms(9,10,11,12,13,14)] assms(15) by simp
  have la: "lastRecord w (bytes fa) = Some ea"
    using lastRecord_append [OF assms(3,5)] assms(2) by simp
  have lb: "lastRecord w (bytes fb) = Some eb"
    using lastRecord_append [OF assms(10,12)] assms(9) by simp
  have "selectSession w = Inr b"
    using assms(1,16)
    by (auto simp: selectSession_def candidates_def sortBy_def byLastEntry_def ta tb)
  moreover have "length (tailWindow (bytes f)) \<le> 16384"
    by (simp add: tailWindow_def Let_def)
  moreover have "scanBack w (rev (nonBlankLines (tailWindow (bytes f)))) = None
            \<longrightarrow> getLastEntryTimestamp w (Some f) = Some (mtime f)"
    by (simp add: getLastEntryTimestamp_def)
  ultimately show ?thesis using ta tb la lb by simp
qed

lemma length_longLineA: "length longLineA = 16447"
  by (simp add: longLineA_def)

lemma nl_notin_longLineA: "CHR 0x0A \<notin> set longLineA"
  by (simp add: longLineA_def)

lemma longLineA_not_blank: "trim longLineA \<noteq> []"
  by (simp add: trim_empty_iff longLineA_def isWhite_def)

lemma lines_longLineA: "nonBlankLines longLineA = [longLineA]"
  by (simp add: nonBlankLines_def splitOn_no_sep nl_notin_longLineA longLineA_not_blank)

lemma window_longLineA:
  "nonBlankLines (tailWindow longLineA) = [tailWindow longLineA] \<or>
   nonBlankLines (tailWindow longLineA) = []"
proof -
  have "CHR 0x0A \<notin> set (tailWindow longLineA)"
    using nl_notin_longLineA in_set_dropD [of "CHR 0x0A" _ longLineA]
    unfolding tailWindow_drop by blast
  then show ?thesis
    by (simp add: nonBlankLines_def splitOn_no_sep)
qed

lemma length_window: "length (tailWindow longLineA) = 16384"
  by (simp add: tailWindow_drop length_longLineA)

lemma length_lineB: "length lineB = 54"
  by (simp add: lineB_def)

lemma length_shortLineA: "length shortLineA = 54"
  by (simp add: shortLineA_def)

lemma parse_window: "parseC (tailWindow longLineA) = None"
proof -
  have "tailWindow longLineA \<noteq> longLineA"
    using length_window length_longLineA by auto
  moreover have "tailWindow longLineA \<noteq> shortLineA"
    using length_window length_shortLineA by auto
  moreover have "tailWindow longLineA \<noteq> lineB"
    using length_window length_lineB by auto
  ultimately show ?thesis by (simp add: parseC_def)
qed

lemma env_fields [simp]: "parse_line (dirEnv d) = parseC" "date_ms (dirEnv d) = dateC"
    "sessions (dirEnv d) = d"
  by (simp_all add: dirEnv_def)

lemma scan_longFileA:
  "scanBack (dirEnv d) (rev (nonBlankLines (tailWindow longLineA))) = None"
  using window_longLineA parse_window by auto

lemma last_longFileA: "getLastEntryTimestamp (dirEnv d) (Some longFileA) = Some 1735862400000"
  by (simp add: getLastEntryTimestamp_def longFileA_def scan_longFileA)

lemma lineB_neq: "lineB \<noteq> shortLineA" "lineB \<noteq> longLineA"
proof -
  show "lineB \<noteq> shortLineA" by (simp add: lineB_def shortLineA_def)
  show "lineB \<noteq> longLineA"
    using length_lineB length_longLineA by auto
qed

lemma junk_neq: "junk \<noteq> shortLineA" "junk \<noteq> longLineA" "junk \<noteq> lineB"
proof -
  have "length junk = 14" by (simp add: junk_def)
  then show "junk \<noteq> shortLineA" "junk \<noteq> longLineA" "junk \<noteq> lineB"
    using length_lineB length_longLineA length_shortLineA by auto
qed

lemma lines_fileB: "nonBlankLines (bytes fileB) = [lineB, junk]"
proof -
  have "CHR 0x0A \<notin> set lineB" "CHR 0x0A \<notin> set junk"
    by (simp_all add: lineB_def junk_def)
  then have "splitOn (CHR 0x0A) (bytes fileB) = [lineB, junk]"
    by (simp add: fileB_def splitOn_append_sep splitOn_no_sep)
  moreover have "trim lineB \<noteq> []" "trim junk \<noteq> []"
    by (simp_all add: trim_empty_iff lineB_def junk_def isWhite_def)
  ultimately show ?thesis by (simp add: nonBlankLines_def)
qed

lemma parseC_lines:
  "parseC lineB = Some recB" "parseC junk = None" "parseC longLineA = Some recA"
  "parseC shortLineA = Some recA"
  by (simp_all add: parseC_def lineB_neq junk_neq)

lemma lastRecord_fileB: "lastRecord (dirEnv d) (bytes fileB) = Some recB"
  by (simp add: lastRecord_def lines_fileB parseC_lines)

lemma window_fileB: "tailWindow (bytes fileB) = bytes fileB"
  by (simp add: tailWindow_drop fileB_def length_lineB junk_def)

lemma dateC_values: "dateC tsA = Some 1735689600000" "dateC tsB = Some 1735776000000"
  by (simp_all add: dateC_def tsA_def tsB_def)

lemma last_fileB: "getLastEntryTimestamp (dirEnv d) (Some fileB) = Some 1735776000000"
proof -
  have "tsB \<noteq> []" by (simp add: tsB_def)
  then show ?thesis
    by (simp add: getLastEntryTimestamp_def window_fileB lines_fileB parseC_lines recB_def
        dateC_values)
qed

lemma lastRecord_longFileA: "lastRecord (dirEnv d) (bytes longFileA) = Some recA"
  by (simp add: lastRecord_def longFileA_def lines_longLineA parseC_lines)

lemma jsonl_names: "endsWith ''a.jsonl'' ''.jsonl''" "endsWith ''b.jsonl'' ''.jsonl''"
  by (simp_all add: endsWith_def)

lemma select_stale:
  "selectSession (dirEnv [(''a.jsonl'', Some longFileA), (''b.jsonl'', Some fileB)])
     = Inr ''a.jsonl''"
  by (simp add: selectSession_def candidates_def jsonlFiles_def sortBy_def byLastEntry_def
      jsonl_names last_longFileA last_fileB)

text \<open>
  Claim C1 as stated fails: the last record of log A is longer than the window of 16384
  bytes, so its timestamp is not found and the modification time of A stands in for it;
  A is chosen although the last record of B is the newer one.
\<close>

theorem stale_window_counterexample:
  "lastRecord (dirEnv [(''a.jsonl'', Some longFileA), (''b.jsonl'', Some fileB)]) (bytes longFileA)
     = Some recA \<and>
   timestamp recA = Some tsA \<and> dateC tsA = Some 1735689600000 \<and>
   lastRecord (dirEnv [(''a.jsonl'', Some longFileA), (''b.jsonl'', Some fileB)]) (bytes fileB)
     = Some recB \<and>
   timestamp recB = Some tsB \<and> dateC tsB = Some 1735776000000 \<and>
   mtime fileB < mtime longFileA \<and>
   selectSession (dirEnv [(''a.jsonl'', Some longFileA), (''b.jsonl'', Some fileB)])
     = Inr ''a.jsonl''"
proof -
  have "timestamp recA = Some tsA" "timestamp recB = Some tsB"
    by (simp_all add: recA_def recB_def)
  moreover have "mtime fileB < mtime longFileA"
    by (simp add: fileB_def longFileA_def)
  ultimately show ?thesis
    using lastRecord_longFileA lastRecord_fileB dateC_values select_stale by blast
qed

lemma lines_shortFileA: "nonBlankLines (bytes shortFileA) = [shortLineA]"
proof -
  have "CHR 0x0A \<notin> set shortLineA"
    by (simp add: shortLineA_def)
  then have "splitOn (CHR 0x0A) (bytes shortFileA) = [shortLineA, []]"
    using splitOn_append_sep [of "CHR 0x0A" shortLineA "[]"]
    by (simp add: shortFileA_def splitOn_no_sep)
  moreover have "trim shortLineA \<noteq> []"
    by (simp add: trim_empty_iff shortLineA_def isWhite_def)
  ultimately show ?thesis by (simp add: nonBlankLines_def)
qed

lemma lastRecord_shortFileA: "lastRecord (dirEnv d) (bytes shortFileA) = Some recA"
  by (simp add: lastRecord_def lines_shortFileA parseC_lines)

theorem selects_latest_record_witness:
  "mtime fileB < mtime shortFileA \<and>
   selectSession (dirEnv mixedDir) = Inr ''b.jsonl'' \<and>
   getLastEntryTimestamp (dirEnv mixedDir) (Some shortFileA) = Some 1735689600000 \<and>
   getLastEntryTimestamp (dirEnv mixedDir) (Some fileB) = Some 1735776000000 \<and>
   getLastEntryTimestamp (dirEnv mixedDir) (Some longFileA) = Some (mtime longFileA)"
proof -
  let ?w = "dirEnv mixedDir"
  have j: "jsonlFiles ?w = [(''a.jsonl'', Some shortFileA), (''b.jsonl'', Some fileB)]"
    by (simp add: jsonlFiles_def mixedDir_def jsonl_names endsWith_def)
  have la: "length (bytes shortFileA) \<le> 16384"
    by (simp add: shortFileA_def length_shortLineA)
  have lb: "length (bytes fileB) \<le> 16384"
    by (simp add: fileB_def length_lineB junk_def)
  have ts: "tsA \<noteq> []" "tsB \<noteq> []"
    by (simp_all add: tsA_def tsB_def)
  have m: "mtime fileB < mtime shortFileA"
    by (simp add: fileB_def shortFileA_def)
  have "selectSession ?w = Inr ''b.jsonl'' \<and>
        lastRecord ?w (bytes shortFileA) = Some recA \<and>
        lastRecord ?w (bytes fileB) = Some recB \<and>
        getLastEntryTimestamp ?w (Some shortFileA) = Some 1735689600000 \<and>
        getLastEntryTimestamp ?w (Some fileB) = Some 1735776000000 \<and>
        length (tailWindow (bytes longFileA)) \<le> 16384 \<and>
        (scanBack ?w (rev (nonBlankLines (tailWindow (bytes longFileA)))) = None
           \<longrightarrow> getLastEntryTimestamp ?w (Some longFileA) = Some (mtime longFileA))"
    by (rule selects_latest_record
          [of ?w "''a.jsonl''" shortFileA "''b.jsonl''" fileB "[]" "bytes shortFileA" recA tsA
             _ "[]" "bytes fileB" recB tsB])
       (simp_all add: j lineAligned_def la lb lastRecord_shortFileA lastRecord_fileB
          recA_def recB_def ts dateC_values)
  moreover have "scanBack ?w (rev (nonBlankLines (tailWindow (bytes longFileA)))) = None"
    using scan_longFileA by (simp add: longFileA_def)
  ultimately show ?thesis using m by simp
qed


section \<open>What the formatters read\<close>

lemma shortPath_agree:
  assumes "PROJECT_ROOT w1 = PROJECT_ROOT w2" and "PROJECT_NAME w1 = PROJECT_NAME w2"
  shows "shortPath w1 = shortPath w2"
  unfolding shortPath_def assms ..

lemma getGitContext_agree:
  assumes "agreeCompact w1 w2"
  shows "getGitContext w1 = getGitContext w2"
proof -
  have sp: "shortPath w1 = shortPath w2"
    using assms unfolding agreeCompact_def by (intro shortPath_agree) simp_all
  have g: "git_branch_out w1 = git_branch_out w2" "git_log_out w1 = git_log_out w2"
      "git_status_out w1 = git_status_out w2"
    using assms by (simp_all add: agreeCompact_def)
  show ?thesis
    unfolding getGitContext_def sp g ..
qed

lemma toolStep_agree:
  assumes "shortPath w1 = shortPath w2"
  shows "toolStep w1 = toolStep w2"
proof (intro ext)
  fix m b a
  have pe: "pushError w1 = pushError w2"
    unfolding pushError_def assms ..
  have rf: "recordFile w1 = recordFile w2"
    unfolding recordFile_def assms ..
  have so: "searchOf w1 = searchOf w2"
    unfolding searchOf_def assms ..
  show "toolStep w1 m b a = toolStep w2 m b a"
  proof (cases b)
    case (ToolUse n i input)
    show ?thesis
      unfolding ToolUse toolStep.simps pe rf so ..
  qed simp_all
qed

lemma mainLoop_agree:
  assumes "shortPath w1 = shortPath w2"
  shows "mainLoop w1 = mainLoop w2"
  unfolding mainLoop_def entryStep_def blockStep_def toolStep_agree [OF assms] ..

lemma durationMin_agree:
  assumes "date_ms w1 = date_ms w2"
  shows "durationMin w1 = durationMin w2"
  unfolding durationMin_def assms ..

lemma assemble_agree:
  assumes "date_ms w1 = date_ms w2" and "PROJECT_NAME w1 = PROJECT_NAME w2"
  shows "assemble w1 = assemble w2"
  unfolding assemble_def durationMin_agree [OF assms(1)] assms(2) ..

lemma extractHandoff_agree:
  assumes "agreeCompact w1 w2"
  shows "extractHandoff w1 entries sid = extractHandoff w2 entries sid"
proof -
  have sp: "shortPath w1 = shortPath w2"
    using assms unfolding agreeCompact_def by (intro shortPath_agree) simp_all
  have dm: "date_ms w1 = date_ms w2" and pn: "PROJECT_NAME w1 = PROJECT_NAME w2"
    using assms by (simp_all add: agreeCompact_def)
  show ?thesis
    unfolding extractHandoff_def mainLoop_agree [OF sp] getGitContext_agree [OF assms]
      assemble_agree [OF dm pn] ..
qed

lemma collectStats_agree:
  assumes "shortPath w1 = shortPath w2"
  shows "collectStats w1 = collectStats w2"
proof -
  have sb: "statsBlock w1 = statsBlock w2"
  proof (intro ext)
    fix m b st
    show "statsBlock w1 m b st = statsBlock w2 m b st"
    proof (cases b)
      case (ToolUse n i input)
      show ?thesis
        unfolding ToolUse statsBlock.simps assms ..
    qed simp_all
  qed
  show ?thesis
    unfolding collectStats_def statsEntry_def sb ..
qed

lemma formatTimestamp_agree:
  assumes "iso_string w1 = iso_string w2"
  shows "formatTimestamp w1 = formatTimestamp w2"
  unfolding formatTimestamp_def assms ..

lemma formatToolCall_agree:
  assumes "shortPath w1 = shortPath w2" and "file_content_match w1 = file_content_match w2"
  shows "formatToolCall w1 = formatToolCall w2"
proof -
  have fl: "fileLine w1 = fileLine w2"
    unfolding fileLine_def assms ..
  have tb: "toolBody w1 = toolBody w2"
    unfolding toolBody_def fl assms ..
  have rp: "resultPart w1 = resultPart w2"
    unfolding resultPart_def assms ..
  show ?thesis
    unfolding formatToolCall_def tb rp ..
qed

lemma mdEntry_agree:
  assumes "shortPath w1 = shortPath w2" and "file_content_match w1 = file_content_match w2"
    and "iso_string w1 = iso_string w2"
  shows "mdEntry w1 = mdEntry w2"
proof -
  have ab: "assistantBlockMd w1 = assistantBlockMd w2"
  proof (intro ext)
    fix m os time b and r :: "string list \<times> bool"
    obtain ps hc where r: "r = (ps, hc)" by (cases r)
    show "assistantBlockMd w1 m os time b r = assistantBlockMd w2 m os time b r"
    proof (cases b)
      case (ToolUse n i input)
      show ?thesis
        unfolding ToolUse r assistantBlockMd.simps formatToolCall_agree [OF assms(1,2)] ..
    qed (simp_all add: r)
  qed
  show ?thesis
    unfolding mdEntry_def ab formatTimestamp_agree [OF assms(3)] ..
qed

lemma getGitContextMd_agree:
  assumes "git_branch_out w1 = git_branch_out w2" and "git_log_out w1 = git_log_out w2"
  shows "getGitContextMd w1 = getGitContextMd w2"
  unfolding getGitContextMd_def assms ..

lemma headerLines_agree:
  assumes "date_ms w1 = date_ms w2" and "PROJECT_NAME w1 = PROJECT_NAME w2"
  shows "headerLines w1 = headerLines w2"
  unfolding headerLines_def durationLine_def assms ..

lemma convertToMarkdown_agree:
  assumes "agreeMarkdown w1 w2"
  shows "convertToMarkdown w1 entries sid os = convertToMarkdown w2 entries sid os"
proof -
  have sp: "shortPath w1 = shortPath w2"
    using assms unfolding agreeMarkdown_def by (intro shortPath_agree) simp_all
  have fm: "file_content_match w1 = file_content_match w2" and iso: "iso_string w1 = iso_string w2"
    and dm: "date_ms w1 = date_ms w2" and pn: "PROJECT_NAME w1 = PROJECT_NAME w2"
    and ck: "clock w1 = clock w2"
    and gb: "git_branch_out w1 = git_branch_out w2" and gl: "git_log_out w1 = git_log_out w2"
    using assms by (simp_all add: agreeMarkdown_def)
  have g: "getGitContextMd w1 = getGitContextMd w2"
    using gb gl by (rule getGitContextMd_agree)
  have h: "headerLines w1 = headerLines w2"
    using dm pn by (rule headerLines_agree)
  have c: "conversation w1 = conversation w2"
    unfolding conversation_def mdEntry_agree [OF sp fm iso] ..
  show ?thesis
    unfolding convertToMarkdown_def collectStats_agree [OF sp] formatTimestamp_agree [OF iso]
      g h c ck ..
qed

text \<open>
  Claim C7, as amended: with the records, the session id and the options fixed, the
  result of \<open>extractHandoff\<close> (a projection or an error) is the same in two environments
  that agree on the project root and name, on the output of the three \<open>git\<close> commands
  and on the parsing of dates; the result of \<open>convertToMarkdown\<close> is the same in two
  environments that agree on the project root and name, on the output of the first two
  \<open>git\<close> commands, on the parsing and formatting of dates, on the test for numbered
  lines and on the clock.
\<close>

theorem formatters_read_environment:
  "(agreeCompact w1 w2 \<longrightarrow> extractHandoff w1 entries sid = extractHandoff w2 entries sid) \<and>
   (agreeMarkdown w1 w2
      \<longrightarrow> convertToMarkdown w1 entries sid os = convertToMarkdown w2 entries sid os)"
  using extractHandoff_agree convertToMarkdown_agree by blast

theorem formatters_read_environment_witness:
  "envOther \<noteq> env0 \<and>
   extractHandoff env0 exchangeLog ''s'' = extractHandoff envOther exchangeLog ''s'' \<and>
   convertToMarkdown env0 exchangeLog ''s'' opts0
     = convertToMarkdown envOther exchangeLog ''s'' opts0"
proof -
  have "sessions envOther \<noteq> sessions env0"
    by (simp add: envOther_def env0_def)
  then have "envOther \<noteq> env0" by auto
  moreover have "agreeCompact env0 envOther" and "agreeMarkdown env0 envOther"
    by (simp_all add: agreeCompact_def agreeMarkdown_def envOther_def)
  ultimately show ?thesis
    using formatters_read_environment [of env0 envOther exchangeLog "''s''" opts0] by simp
qed

lemma join_append:
  "xs \<noteq> [] \<Longrightarrow> ys \<noteq> [] \<Longrightarrow> join sep (xs @ ys) = join sep xs @ sep @ join sep ys"
proof (induction sep xs rule: join.induct)
  case (1 sep)
  then show ?case by simp
next
  case (2 sep x)
  then show ?case by (cases ys) simp_all
next
  case (3 sep x y zs)
  then show ?case by simp
qed

lemma headerLines_nonempty: "headerLines w st git sid a b \<noteq> []"
  by (simp add: headerLines_def)

lemma convertToMarkdown_Nil:
  "convertToMarkdown w [] sid os =
     (case formatTimestamp w (Some (clock w)) of
        Inl err \<Rightarrow> Inl err
      | Inr exported \<Rightarrow>
          Inr (join [CHR 0x0A] (headerLines w initStats (getGitContextMd w) sid [] [])
               @ [CHR 0x0A] @ join [CHR 0x0A] (footerLines exported)))"
proof -
  have f: "footerLines x \<noteq> []" for x
    by (simp add: footerLines_def)
  show ?thesis
    by (simp add: convertToMarkdown_def buildToolResultMap_def collectStats_def initStats_def
        formatTimestamp_def conversation_def join_append headerLines_nonempty f
        split: sum.splits)
qed

lemma exported_env0: "formatTimestamp env0 (Some (clock env0)) = Inr ''2025-01-01 00:00:00 UTC''"
  by (simp add: formatTimestamp_def env0_def)

lemma exported_envLater:
  "formatTimestamp envLater (Some (clock envLater)) = Inr ''2025-01-01 00:00:01 UTC''"
  by (simp add: formatTimestamp_def envLater_def env0_def)

lemma header_envLater:
  "headerLines envLater st (getGitContextMd envLater) sid a b
     = headerLines env0 st (getGitContextMd env0) sid a b"
proof -
  have "headerLines envLater = headerLines env0"
    by (rule headerLines_agree) (simp_all add: envLater_def)
  moreover have "getGitContextMd envLater = getGitContextMd env0"
    by (rule getGitContextMd_agree) (simp_all add: envLater_def)
  ultimately show ?thesis by simp
qed

lemma extractHandoff_Nil: "extractHandoff w [] sid = Inr (plainHandoff w [] sid)"
  by (rule extractHandoff_returns) (simp add: wellFormed_def)

lemma handoff_branch:
  "s_branch (h_session (plainHandoff w entries sid)) = g_branch (getGitContext w)"
  by (simp add: plainHandoff_def assemble_def)

lemma branch_env0: "g_branch (getGitContext env0) = ''main''"
  by (simp add: getGitContext_def env0_def trim_def isWhite_def)

lemma branch_envDev: "g_branch (getGitContext envDev) = ''dev''"
  by (simp add: getGitContext_def envDev_def env0_def trim_def isWhite_def)

text \<open>
  Claim C7 as stated fails: with the same records, session id and options, the compact
  projection changes with the branch that \<open>git\<close> reports, and the narrative projection
  changes with the time of the export.
\<close>

theorem formatters_not_pure:
  "extractHandoff env0 [] ''s'' \<noteq> extractHandoff envDev [] ''s'' \<and>
   convertToMarkdown env0 [] ''s'' opts0 \<noteq> convertToMarkdown envLater [] ''s'' opts0"
proof
  have "s_branch (h_session (plainHandoff env0 [] ''s'')) = ''main''"
    by (simp add: handoff_branch branch_env0)
  moreover have "s_branch (h_session (plainHandoff envDev [] ''s'')) = ''dev''"
    by (simp add: handoff_branch branch_envDev)
  ultimately have "plainHandoff env0 [] ''s'' \<noteq> plainHandoff envDev [] ''s''"
    by auto
  then show "extractHandoff env0 [] ''s'' \<noteq> extractHandoff envDev [] ''s''"
    by (simp add: extractHandoff_Nil)
next
  show "convertToMarkdown env0 [] ''s'' opts0 \<noteq> convertToMarkdown envLater [] ''s'' opts0"
    by (simp add: convertToMarkdown_Nil exported_env0 exported_envLater header_envLater
        footerLines_def)
qed

section \<open>Turns of the narrative projection\<close>




section \<open>The correlation map: the last outcome wins\<close>

text \<open>
  Claim C3, as amended: when a log holds outcomes with the correlation id \<open>k\<close> (two or
  more, or just one) and no array of blocks of a user record holds \<open>null\<close>,
  \<open>buildToolResultMap\<close> raises no error and the map it returns has for \<open>k\<close> one value,
  the outcome that comes last in file order. When such an array holds \<open>null\<close>, the
  function throws a \<open>TypeError\<close>.
\<close>

theorem buildToolResultMap_last_wins:
  assumes "rs = filter (\<lambda>p. fst p = k) (outcomes entries)"
    and "rs \<noteq> []"
  shows "if noNullOutcome entries
         then \<exists>m. buildToolResultMap entries = Inr m \<and> m k = Some (snd (last rs))
         else buildToolResultMap entries = Inl TypeError"
proof (cases "noNullOutcome entries")
  case True
  then obtain m where m: "buildToolResultMap entries = Inr m"
    using buildToolResultMap_returns by blast
  then have "m = outcomeMap entries"
    by (rule buildToolResultMap_outcomeMap)
  then have "m k = Some (snd (last rs))"
    using assms
    by (cases "filter (\<lambda>p. fst p = k) (outcomes entries)")
       (simp_all add: outcomeMap_def lastFor_def)
  with m True show ?thesis by simp
next
  case False
  then show ?thesis by (simp add: buildToolResultMap_throws)
qed

theorem buildToolResultMap_last_wins_witness:
  "length (filter (\<lambda>p. fst p = ''t1'') (outcomes dupLog)) = 2 \<and>
   (\<exists>m. buildToolResultMap dupLog = Inr m \<and>
        m ''t1'' = Some \<lparr>r_content = Some ''second'', r_is_error = True\<rparr>)"
proof -
  have rs: "filter (\<lambda>p. fst p = ''t1'') (outcomes dupLog) =
    [(''t1'', \<lparr>r_content = Some ''first'', r_is_error = False\<rparr>),
     (''t1'', \<lparr>r_content = Some ''second'', r_is_error = True\<rparr>)]"
    by (simp add: dupLog_def userEntry_def outcomes_def entryOutcomes_def contentArray_def)
  then have ne: "filter (\<lambda>p. fst p = ''t1'') (outcomes dupLog) \<noteq> []"
    by simp
  have nn: "noNullOutcome dupLog"
    by (simp add: noNullOutcome_def entryReturns_def dupLog_def userEntry_def contentArray_def)
  show ?thesis
    using buildToolResultMap_last_wins [OF refl ne] nn by (simp add: rs)
qed

text \<open>
  Claim C3 as stated fails: in a log where a \<open>null\<close> stands before two outcomes of the
  same correlation id, \<open>buildToolResultMap\<close> raises an error.
\<close>

theorem null_block_raises:
  "length (filter (\<lambda>p. fst p = ''t1'') (outcomes nullLog)) = 2 \<and>
   buildToolResultMap nullLog = Inl TypeError"
  by (simp add: nullLog_def userEntry_def outcomes_def entryOutcomes_def contentArray_def
      buildToolResultMap_def addEntryResults_def)

section \<open>Turns\<close>



lemma wellFormed_exchangeLog: "wellFormed exchangeLog"
  by (simp add: wellFormed_def wellFormedEntry_def wellFormedBlock_def exchangeLog_def log_defs)



text \<open>
  Claim C10, as amended: an assistant record that comes before every record that opens
  a turn, and whose text blocks are not all blank (white space only, or without text),
  has an entry in the digest, of role \<open>assistant\<close> and turn number 0.
\<close>

theorem assistant_before_first_turn:
  assumes "extractHandoff w entries sid = Inr h"
    and "entries = pre @ e # post"
    and "\<forall>x \<in> set pre. \<not> opensTurn x"
    and "isAssistant e"
    and "contentArray e = Some bs"
    and "assistantText bs \<noteq> []"
  shows "\<lparr>d_turn = 0, d_role = ''assistant'',
           d_content = truncate (Some (assistantText bs)) 300\<rparr>
         \<in> set (h_conversation_digest h)"
  using plainHandoff_early_assistant [OF assms(2,3,4,5,6), of w sid]
    extractHandoff_parts(4) [OF assms(1)]
  by simp

theorem assistant_before_first_turn_witness:
  "\<exists>h. extractHandoff env0 greetingLog ''s'' = Inr h \<and>
       \<lparr>d_turn = 0, d_role = ''assistant'', d_content = ''hi''\<rparr>
         \<in> set (h_conversation_digest h)"
proof -
  have "wellFormed greetingLog"
    by (simp add: wellFormed_def wellFormedEntry_def wellFormedBlock_def greetingLog_def
        log_defs)
  then have r: "extractHandoff env0 greetingLog ''s'' = Inr (plainHandoff env0 greetingLog ''s'')"
    by (rule extractHandoff_returns)
  have t: "assistantText [Text (Some ''hi'')] = ''hi''"
    by (simp add: assistantText_def trim_def isWhite_def)
  have "\<lparr>d_turn = 0, d_role = ''assistant'',
           d_content = truncate (Some (assistantText [Text (Some ''hi'')])) 300\<rparr>
         \<in> set (h_conversation_digest (plainHandoff env0 greetingLog ''s''))"
    by (rule assistant_before_first_turn
        [OF r, of "[]" "assistantEntry [Text (Some ''hi'')]" "[userEntry [Text (Some ''go'')]]"])
       (simp_all add: greetingLog_def log_defs t)
  then have "\<lparr>d_turn = 0, d_role = ''assistant'', d_content = ''hi''\<rparr>
         \<in> set (h_conversation_digest (plainHandoff env0 greetingLog ''s''))"
    by (simp add: t truncate_def)
  with r show ?thesis by blast
qed

text \<open>
  Claim C10 as stated fails: an assistant record whose text is not empty, but blank (two
  line feeds), comes before the first user record and has no entry in the digest.
\<close>

theorem blank_assistant_text_skipped:
  "\<exists>h. extractHandoff env0 blankLog ''s'' = Inr h \<and>
       h_conversation_digest h = [\<lparr>d_turn = 1, d_role = ''user'', d_content = ''go''\<rparr>]"
proof -
  have "wellFormed blankLog"
    by (simp add: wellFormed_def wellFormedEntry_def wellFormedBlock_def blankLog_def log_defs)
  then have r: "extractHandoff env0 blankLog ''s'' = Inr (plainHandoff env0 blankLog ''s'')"
    by (rule extractHandoff_returns)
  have u: "userText [Text (Some ''go'')] = ''go''"
    by (simp add: userText_def stripSystemTags_plain isWhite_def)
  have a: "assistantText [Text (Some [CHR 0x0A, CHR 0x0A])] = []"
    by (simp add: assistantText_def trim_def isWhite_def)
  have "h_conversation_digest (plainHandoff env0 blankLog ''s'')
      = [\<lparr>d_turn = 1, d_role = ''user'', d_content = ''go''\<rparr>]"
    by (simp add: handoff_digest plainDigestLoop_def plainDigestStep_def pushDigest_def
        blankLog_def log_defs u a truncate_def)
  with r show ?thesis by blast
qed

section \<open>The projection of the main loop\<close>

text \<open>
  Claim C8: in every projection that \<open>extractHandoff\<close> returns, the list of actions is
  made of what each invocation adds, in file order, and every invocation counts in
  \<open>tool_calls\<close>; an invocation named \<open>Bash\<close> adds one entry when its trimmed command is
  longer than 5 characters and does not start with \<open>echo\<close> and a space, and nothing
  otherwise.
\<close>

theorem bash_actions:
  assumes "buildToolResultMap entries = Inr toolResultMap"
    and "extractHandoff w entries sid = Inr h"
  shows "actionsOf h = concat (map (blockActions toolResultMap) (toolUses entries)) \<and>
   s_tool_calls (h_session h) = length (toolUses entries) \<and>
   blockActions m (ToolUse (Some ''Bash'') i input) =
     (if 5 < length (commandText input) \<and> \<not> startsWith (commandText input) ''echo ''
      then [\<lparr>a_command = truncate (Some (commandText input)) 300,
             a_description = someIfTruthy (in_description input),
             a_failed = resultIsError (m (idKey i)),
             a_output = (if resultIsError (m (idKey i)) then None else bashOutput (m (idKey i))),
             a_agent = None, a_result = None\<rparr>]
      else [])"
proof -
  have h: "h = plainHandoff w entries sid"
    using assms(2) by (rule extractHandoff_parts(4))
  have m: "toolResultMap = outcomeMap entries"
    using assms(1) by (rule buildToolResultMap_outcomeMap)
  show ?thesis
    unfolding h m by (rule plainHandoff_actions)
qed

lemma wellFormed_bashLog: "wellFormed bashLog"
  by (simp add: wellFormed_def wellFormedEntry_def wellFormedBlock_def bashLog_def bash_def
      log_defs)

lemma buildToolResultMap_bashLog: "buildToolResultMap bashLog = Inr Map.empty"
  by (simp add: buildToolResultMap_def addEntryResults_def bashLog_def log_defs)

theorem bash_actions_witness:
  "\<exists>h. extractHandoff env0 bashLog ''s'' = Inr h \<and>
       actionsOf h
         = [\<lparr>a_command = ''npm test'', a_description = None, a_failed = False,
              a_output = None, a_agent = None, a_result = None\<rparr>] \<and>
       s_tool_calls (h_session h) = 3"
proof -
  have r: "extractHandoff env0 bashLog ''s'' = Inr (plainHandoff env0 bashLog ''s'')"
    using wellFormed_bashLog by (rule extractHandoff_returns)
  note ba = bash_actions [OF buildToolResultMap_bashLog r, of Map.empty None emptyInput]
  have tu: "toolUses bashLog = [bash ''npm test'', bash ''ls'', bash ''echo starting now'']"
    by (simp add: toolUses_def entryToolUses_def bashLog_def bash_def log_defs)
  have b1: "blockActions Map.empty (bash ''npm test'')
      = [\<lparr>a_command = ''npm test'', a_description = None, a_failed = False,
          a_output = None, a_agent = None, a_result = None\<rparr>]"
    by (simp add: bash_def bashAction_def taskAction_def emptyInput_def truthy_def trim_def
        isWhite_def startsWith_def truncate_def someIfTruthy_def resultIsError_def
        bashOutput_def resultContent_def)
  have b2: "blockActions Map.empty (bash ''ls'') = []"
    by (simp add: bash_def bashAction_def taskAction_def emptyInput_def truthy_def trim_def
        isWhite_def)
  have b3: "blockActions Map.empty (bash ''echo starting now'') = []"
    by (simp add: bash_def bashAction_def taskAction_def emptyInput_def truthy_def trim_def
        isWhite_def startsWith_def)
  have "actionsOf (plainHandoff env0 bashLog ''s'')
         = [\<lparr>a_command = ''npm test'', a_description = None, a_failed = False,
              a_output = None, a_agent = None, a_result = None\<rparr>] \<and>
       s_tool_calls (h_session (plainHandoff env0 bashLog ''s'')) = 3"
    using ba by (simp add: tu b1 b2 b3)
  with r show ?thesis by blast
qed

text \<open>
  Claim C6, as amended: in every projection that \<open>extractHandoff\<close> returns, the task is
  the first text block of a user record that opens a turn whose cleaned text is not
  empty, cleaned (system tags removed, trimmed) and cut at 500 characters; it is that
  text unchanged when the text is plain and has at most 500 characters.
\<close>

theorem task_is_first_user_text:
  assumes "extractHandoff w entries sid = Inr h"
    and "entries = pre @ e # post"
    and "\<forall>x \<in> set pre. \<not> hasUserText x"
    and "opensTurn e"
    and "contentArray e = Some (bpre @ Text (Some t) # bpost)"
    and "userText bpre = []"
    and "stripSystemTags t \<noteq> []"
  shows "h_task h = truncate (Some (stripSystemTags t)) 500 \<and>
         (plainText t \<and> length t \<le> 500 \<longrightarrow> h_task h = t)"
proof -
  have h: "h = plainHandoff w entries sid"
    using assms(1) by (rule extractHandoff_parts(4))
  have task: "h_task h = truncate (Some (stripSystemTags t)) 500"
    unfolding h using assms(2-7) by (rule handoff_task)
  have "truncate (Some (stripSystemTags t)) 500 = t" if "plainText t" and "length t \<le> 500"
    using that by (simp add: plainText_def stripSystemTags_plain truncate_def)
  with task show ?thesis by simp
qed

theorem task_is_first_user_text_witness:
  "\<exists>h. extractHandoff env0 exchangeLog ''s'' = Inr h \<and> h_task h = ''fix it''"
proof -
  have r: "extractHandoff env0 exchangeLog ''s'' = Inr (plainHandoff env0 exchangeLog ''s'')"
    using wellFormed_exchangeLog by (rule extractHandoff_returns)
  have p: "plainText ''fix it''"
    by (simp add: plainText_def isWhite_def)
  have s: "stripSystemTags ''fix it'' \<noteq> []"
    using p by (simp add: plainText_def stripSystemTags_plain)
  have "h_task (plainHandoff env0 exchangeLog ''s'')
          = truncate (Some (stripSystemTags ''fix it'')) 500 \<and>
        (plainText ''fix it'' \<and> length ''fix it'' \<le> 500
           \<longrightarrow> h_task (plainHandoff env0 exchangeLog ''s'') = ''fix it'')"
    by (rule task_is_first_user_text
        [OF r, of "[]" "userEntry [Text (Some ''fix it'')]"
           "[userEntry [ToolResult (Some ''t1'') (ResString ''ok'') False],
             assistantEntry [Text (Some ''done'')]]" "[]" "''fix it''" "[]"])
       (simp_all add: exchangeLog_def log_defs s userText_def)
  then have "plainText ''fix it'' \<and> length ''fix it'' \<le> 500
           \<longrightarrow> h_task (plainHandoff env0 exchangeLog ''s'') = ''fix it''"
    by (rule conjunct2)
  with p have "h_task (plainHandoff env0 exchangeLog ''s'') = ''fix it''" by simp
  with r show ?thesis by blast
qed

text \<open>
  Claim C6 as stated fails: a first user text of 501 characters is cut at 500 and
  marked, so the task is not that text.
\<close>

theorem task_not_verbatim:
  "opensTurn (userEntry [Text (Some longText)]) \<and>
   (\<exists>h. extractHandoff env0 [userEntry [Text (Some longText)]] ''s'' = Inr h \<and>
        h_task h \<noteq> longText)"
proof -
  have "wellFormed [userEntry [Text (Some longText)]]"
    by (simp add: wellFormed_def wellFormedEntry_def wellFormedBlock_def log_defs)
  then have "extractHandoff env0 [userEntry [Text (Some longText)]] ''s''
      = Inr (plainHandoff env0 [userEntry [Text (Some longText)]] ''s'')"
    by (rule extractHandoff_returns)
  then show ?thesis
    using plainHandoff_longText by blast
qed

text \<open>
  Claim C9, as amended: in every projection that \<open>extractHandoff\<close> returns for a log
  where no \<open>Write\<close> or \<open>Edit\<close> has a short path that names a property of
  \<open>Object.prototype\<close>, the last invocation that writes to or edits a path decides. When
  an \<open>Edit\<close> of a path is followed by no \<open>Write\<close> of it, the projection has one change
  entry for the path, with action \<open>modified\<close>; when a \<open>Write\<close> of a path is followed by
  no \<open>Edit\<close> of it, it has one change entry for the path, with action \<open>created\<close> and no
  edits.
\<close>

theorem last_write_or_edit_decides:
  assumes "extractHandoff w entries sid = Inr h"
    and "ownKeyPaths w entries"
    and "toolUses entries = pre @ b # post"
  shows "(editsAt w sp b \<and> (\<forall>x \<in> set post. \<not> writesTo w sp x)
            \<longrightarrow> (\<exists>c. changesFor sp h = [c] \<and> c_action c = ''modified'')) \<and>
         (writesTo w sp b \<and> (\<forall>x \<in> set post. \<not> editsAt w sp x)
            \<longrightarrow> (\<exists>c. changesFor sp h = [c] \<and> c_action c = ''created'' \<and> c_edits c = None))"
proof -
  have h: "h = plainHandoff w entries sid"
    using assms(1) by (rule extractHandoff_parts(4))
  show ?thesis
    unfolding h using changes_after_edit [OF assms(3)] changes_after_write [OF assms(3)]
    by blast
qed

lemma wellFormed_assistantEntry:
  "Null \<notin> set bs \<Longrightarrow> Text None \<notin> set bs \<Longrightarrow> wellFormed [assistantEntry bs]"
  by (auto simp: wellFormed_def wellFormedEntry_def wellFormedBlock_def assistantEntry_def
      contentArray_def list_all_iff)

theorem last_write_or_edit_decides_witness:
  "(\<exists>h. extractHandoff env0 writeEditLog ''s'' = Inr h \<and>
        (\<exists>c. changesFor ''a.txt'' h = [c] \<and> c_action c = ''modified'')) \<and>
   (\<exists>h. extractHandoff env0 editWriteLog ''s'' = Inr h \<and>
        (\<exists>c. changesFor ''a.txt'' h = [c] \<and> c_action c = ''created'' \<and> c_edits c = None))"
proof -
  let ?w = "writeOf ''/work/app/a.txt'' ''x''"
  let ?e = "editOf ''/work/app/a.txt'' ''x'' ''y''"
  have r1: "extractHandoff env0 writeEditLog ''s'' = Inr (plainHandoff env0 writeEditLog ''s'')"
    by (rule extractHandoff_returns, unfold writeEditLog_def, rule wellFormed_assistantEntry)
       (simp_all add: file_defs)
  have r2: "extractHandoff env0 editWriteLog ''s'' = Inr (plainHandoff env0 editWriteLog ''s'')"
    by (rule extractHandoff_returns, unfold editWriteLog_def, rule wellFormed_assistantEntry)
       (simp_all add: file_defs)
  have we: "toolUses writeEditLog = [?w] @ ?e # []"
    by (simp add: toolUses_def entryToolUses_def writeEditLog_def log_defs file_defs)
  have ew: "toolUses editWriteLog = [?e] @ ?w # []"
    by (simp add: toolUses_def entryToolUses_def editWriteLog_def log_defs file_defs)
  have cw: "changedPath env0 ?w = [''a.txt'']" and ce: "changedPath env0 ?e = [''a.txt'']"
    by (simp_all add: file_defs shortPath_a)
  have o1: "ownKeyPaths env0 writeEditLog"
    by (simp add: ownKeyPaths_def we cw ce prototypeKeys_def)
  have o2: "ownKeyPaths env0 editWriteLog"
    by (simp add: ownKeyPaths_def ew cw ce prototypeKeys_def)
  have e: "editsAt env0 ''a.txt'' ?e"
    by (simp add: file_defs shortPath_a)
  have w: "writesTo env0 ''a.txt'' ?w"
    by (simp add: file_defs shortPath_a)
  have 1: "\<exists>c. changesFor ''a.txt'' (plainHandoff env0 writeEditLog ''s'') = [c]
        \<and> c_action c = ''modified''"
    using last_write_or_edit_decides [OF r1 o1 we, of "''a.txt''"] e by simp
  have 2: "\<exists>c. changesFor ''a.txt'' (plainHandoff env0 editWriteLog ''s'') = [c]
        \<and> c_action c = ''created'' \<and> c_edits c = None"
    using last_write_or_edit_decides [OF r2 o2 ew, of "''a.txt''"] w by simp
  from 1 2 r1 r2 show ?thesis by blast
qed

text \<open>
  Claim C9 as stated fails: in a log where a \<open>Write\<close> of a path is followed by an \<open>Edit\<close>
  of it and then by another \<open>Write\<close>, the change entry of the path reports \<open>created\<close>.
\<close>

theorem write_edit_write_created:
  "toolUses writeEditWriteLog
     = [writeOf ''/work/app/a.txt'' ''x'', editOf ''/work/app/a.txt'' ''x'' ''y'',
        writeOf ''/work/app/a.txt'' ''z''] \<and>
   ownKeyPaths env0 writeEditWriteLog \<and>
   (\<exists>h. extractHandoff env0 writeEditWriteLog ''s'' = Inr h \<and>
        map c_action (changesFor ''a.txt'' h) = [''created''])"
proof -
  let ?w = "writeOf ''/work/app/a.txt'' ''x''"
  let ?e = "editOf ''/work/app/a.txt'' ''x'' ''y''"
  let ?z = "writeOf ''/work/app/a.txt'' ''z''"
  have r: "extractHandoff env0 writeEditWriteLog ''s''
      = Inr (plainHandoff env0 writeEditWriteLog ''s'')"
    by (rule extractHandoff_returns, unfold writeEditWriteLog_def,
        rule wellFormed_assistantEntry) (simp_all add: file_defs)
  have tu: "toolUses writeEditWriteLog = [?w, ?e, ?z]"
    using plainHandoff_writeEditWriteLog by (rule conjunct1)
  have "changedPath env0 ?w = [''a.txt'']" "changedPath env0 ?e = [''a.txt'']"
      "changedPath env0 ?z = [''a.txt'']"
    by (simp_all add: file_defs shortPath_a)
  then have o: "ownKeyPaths env0 writeEditWriteLog"
    by (simp add: ownKeyPaths_def tu prototypeKeys_def)
  have c: "map c_action (changesFor ''a.txt'' (plainHandoff env0 writeEditWriteLog ''s''))
      = [''created'']"
    using plainHandoff_writeEditWriteLog by (rule conjunct2)
  show ?thesis
    using tu o c by (simp add: r)
qed

text \<open>
  Claim C5: in every projection that \<open>extractHandoff\<close> returns, the optional fields
  \<open>errors\<close>, \<open>actions\<close>, \<open>searches\<close> and \<open>uncommitted_changes\<close> (and the \<open>edits\<close> of a
  change) are never present and empty, and each is absent exactly when its collection
  is empty.
\<close>

theorem optional_fields_never_empty:
  assumes "buildToolResultMap entries = Inr toolResultMap"
    and "mainLoop w toolResultMap entries = Inr a"
    and "extractHandoff w entries sid = Inr h"
  shows "h_errors h \<noteq> Some [] \<and>
   h_actions h \<noteq> Some [] \<and>
   map_option ss_unique_patterns (h_searches h) \<noteq> Some [] \<and>
   gc_uncommitted_changes (h_git_context h) \<noteq> Some [] \<and>
   Some [] \<notin> set (map c_edits (h_changes h)) \<and>
   (h_errors h = None) = (errors a = []) \<and>
   (h_actions h = None) = (actions a = []) \<and>
   (h_searches h = None) = (searches a = []) \<and>
   (gc_uncommitted_changes (h_git_context h) = None)
     = (g_uncommitted_files (getGitContext w) = [])"
proof -
  have h: "h = plainHandoff w entries sid"
    using assms(3) by (rule extractHandoff_parts(4))
  have m: "toolResultMap = outcomeMap entries"
    using assms(1) by (rule buildToolResultMap_outcomeMap)
  have a: "a = plainMainLoop w (outcomeMap entries) entries"
    using assms(2) unfolding m by (rule mainLoop_Inr)
  show ?thesis
    unfolding h a by (rule plainHandoff_optional_fields)
qed

theorem optional_fields_never_empty_witness:
  "\<exists>h. extractHandoff env0 bashLog ''s'' = Inr h \<and>
       h_actions h \<noteq> None \<and> h_actions h \<noteq> Some [] \<and> h_errors h = None"
proof -
  have r: "extractHandoff env0 bashLog ''s'' = Inr (plainHandoff env0 bashLog ''s'')"
    using wellFormed_bashLog by (rule extractHandoff_returns)
  have l: "mainLoop env0 Map.empty bashLog = Inr (plainMainLoop env0 Map.empty bashLog)"
    using wellFormed_bashLog by (rule mainLoop_returns)
  note of = optional_fields_never_empty [OF buildToolResultMap_bashLog l r]
  have a: "actions (plainMainLoop env0 Map.empty bashLog) \<noteq> []"
    by (simp add: actions_mainLoop toolUses_def entryToolUses_def bashLog_def bash_def log_defs
        bashAction_def taskAction_def emptyInput_def truthy_def trim_def isWhite_def
        startsWith_def Let_def)
  have e: "errors (plainMainLoop env0 Map.empty bashLog) = []"
    by (simp add: plainMainLoop_def plainEntryStep_def bashLog_def bash_def log_defs initAcc_def
        Let_def pushError_def resultIsError_def recordFile_def emptyInput_def)
  from of a e have "h_actions (plainHandoff env0 bashLog ''s'') \<noteq> None \<and>
      h_actions (plainHandoff env0 bashLog ''s'') \<noteq> Some [] \<and>
      h_errors (plainHandoff env0 bashLog ''s'') = None"
    by simp
  with r show ?thesis by blast
qed


end
